theory Spec2Isabelle
  imports Complex_Main "HOL-Library.Log_Nat"
begin

section \<open>Data model\<close>

text \<open>
  The records follow the interfaces \<^verbatim>\<open>Stage\<close> and \<^verbatim>\<open>Flow\<close> of the editor. Optional
  fields are options. The conservation engine and the stacking layout are modelled over
  the reals: finite arithmetic is exact there, rounding is not modelled, and the place
  where the source would compute \<^verbatim>\<open>Infinity\<close> or \<^verbatim>\<open>NaN\<close> (a division by zero) is written
  out as a result of its own. The coordinate mapper, whose round trip is a statement about
  the equality of two numbers, is modelled on IEEE doubles (section on the numbers of the
  coordinate mapper below).
\<close>

record stage =
  stage_id :: string
  stage_name :: string
  position :: real
  yPosition :: "real option"
  stage_color :: "string option"

record flow =
  flow_id :: string
  flow_name :: string
  fromStageId :: string
  toStageId :: string
  flow_value :: real
  branchIndex :: "nat option"
  flow_color :: "string option"

definition MIN_MARKER_HEIGHT :: real where "MIN_MARKER_HEIGHT = 480"
definition HEIGHT_SCALE :: real where "HEIGHT_SCALE = 8"
definition FLOW_SPACING :: real where "FLOW_SPACING = 8"
definition CANVAS_MIN_POSITION :: real where "CANVAS_MIN_POSITION = -10"
definition CANVAS_MAX_POSITION :: real where "CANVAS_MAX_POSITION = 110"
definition CANVAS_RANGE :: real where
  "CANVAS_RANGE = CANVAS_MAX_POSITION - CANVAS_MIN_POSITION"

section \<open>Numbers of the coordinate mapper\<close>

text \<open>
  A JavaScript number: a finite double, given by its real value, an infinity or
  \<^verbatim>\<open>NaN\<close>. The sign of zero is not modelled; a zero counts as positive where a sign is
  needed (the quotient by zero).
\<close>

datatype jsnum = Num real | PosInf | NegInf | NaN

text \<open>Rounding to the nearest integer, a tie to the even one.\<close>

definition roundTiesToEven :: "real \<Rightarrow> int" where
  "roundTiesToEven y =
     (let f = \<lfloor>y\<rfloor>; d = y - of_int f
      in if d < 1 / 2 then f else if 1 / 2 < d then f + 1 else if even f then f else f + 1)"

text \<open>
  The binary exponent \<open>e\<close> of a number other than zero, \<open>2 ^ e \<le> \<bar>x\<bar> < 2 ^ (e + 1)\<close>, from
  the bit length of the integer part of \<open>\<bar>x\<bar>\<close> or of its inverse.
\<close>

definition binaryExponent :: "real \<Rightarrow> int" where
  "binaryExponent x =
     (let a = \<bar>x\<bar>
      in if 1 \<le> a then bitlen \<lfloor>a\<rfloor> - 1
         else (let j = bitlen \<lfloor>1 / a\<rfloor> - 1
               in if a = 1 / 2 ^ nat j then - j else - j - 1))"

text \<open>
  The double of a real result (IEEE 754 binary64, round to nearest, ties to even): 53
  significant bits, so a unit in the last place of \<open>2 ^ (e - 52)\<close>, but not below
  \<open>2 ^ -1074\<close> (the subnormal numbers); a rounded magnitude of \<open>2 ^ 1024\<close> or more is an
  infinity.
\<close>

definition double_of_real :: "real \<Rightarrow> jsnum" where
  "double_of_real x =
     (if x = 0 then Num 0
      else
        (let q = max (binaryExponent x - 52) (- 1074);
             r = of_int (roundTiesToEven (x / 2 powi q)) * 2 powi q
         in if 2 ^ 1024 \<le> r then PosInf
            else if r \<le> - (2 ^ 1024) then NegInf
            else Num r))"

text \<open>
  The operators \<^verbatim>\<open>+\<close>, \<^verbatim>\<open>-\<close>, \<^verbatim>\<open>*\<close>, \<^verbatim>\<open>/\<close> and \<^verbatim>\<open>Math.max\<close>, \<^verbatim>\<open>Math.min\<close> on these numbers:
  the exact result rounded for finite operands, and the IEEE rules for the rest.
\<close>

fun js_neg :: "jsnum \<Rightarrow> jsnum" where
  "js_neg (Num a) = Num (- a)"
| "js_neg PosInf = NegInf"
| "js_neg NegInf = PosInf"
| "js_neg NaN = NaN"

fun js_add :: "jsnum \<Rightarrow> jsnum \<Rightarrow> jsnum" where
  "js_add (Num a) (Num b) = double_of_real (a + b)"
| "js_add NaN b = NaN"
| "js_add a NaN = NaN"
| "js_add PosInf NegInf = NaN"
| "js_add NegInf PosInf = NaN"
| "js_add PosInf b = PosInf"
| "js_add a PosInf = PosInf"
| "js_add NegInf b = NegInf"
| "js_add a NegInf = NegInf"

definition js_sub :: "jsnum \<Rightarrow> jsnum \<Rightarrow> jsnum" where
  "js_sub a b = js_add a (js_neg b)"

fun js_mul :: "jsnum \<Rightarrow> jsnum \<Rightarrow> jsnum" where
  "js_mul (Num a) (Num b) = double_of_real (a * b)"
| "js_mul NaN b = NaN"
| "js_mul a NaN = NaN"
| "js_mul PosInf (Num b) = (if b = 0 then NaN else if 0 < b then PosInf else NegInf)"
| "js_mul NegInf (Num b) = (if b = 0 then NaN else if 0 < b then NegInf else PosInf)"
| "js_mul (Num a) PosInf = (if a = 0 then NaN else if 0 < a then PosInf else NegInf)"
| "js_mul (Num a) NegInf = (if a = 0 then NaN else if 0 < a then NegInf else PosInf)"
| "js_mul PosInf PosInf = PosInf"
| "js_mul NegInf NegInf = PosInf"
| "js_mul PosInf NegInf = NegInf"
| "js_mul NegInf PosInf = NegInf"

fun js_div :: "jsnum \<Rightarrow> jsnum \<Rightarrow> jsnum" where
  "js_div (Num a) (Num b) =
     (if b = 0 then (if a = 0 then NaN else if 0 < a then PosInf else NegInf)
      else double_of_real (a / b))"
| "js_div NaN b = NaN"
| "js_div a NaN = NaN"
| "js_div PosInf (Num b) = (if b < 0 then NegInf else PosInf)"
| "js_div NegInf (Num b) = (if b < 0 then PosInf else NegInf)"
| "js_div (Num a) PosInf = Num 0"
| "js_div (Num a) NegInf = Num 0"
| "js_div PosInf PosInf = NaN"
| "js_div PosInf NegInf = NaN"
| "js_div NegInf PosInf = NaN"
| "js_div NegInf NegInf = NaN"

fun Math_max :: "jsnum \<Rightarrow> jsnum \<Rightarrow> jsnum" where
  "Math_max (Num a) (Num b) = Num (max a b)"
| "Math_max NaN b = NaN"
| "Math_max a NaN = NaN"
| "Math_max PosInf b = PosInf"
| "Math_max a PosInf = PosInf"
| "Math_max NegInf b = b"
| "Math_max a NegInf = a"

fun Math_min :: "jsnum \<Rightarrow> jsnum \<Rightarrow> jsnum" where
  "Math_min (Num a) (Num b) = Num (min a b)"
| "Math_min NaN b = NaN"
| "Math_min a NaN = NaN"
| "Math_min NegInf b = NegInf"
| "Math_min a NegInf = NegInf"
| "Math_min PosInf b = b"
| "Math_min a PosInf = a"

section \<open>Coordinate mapper\<close>

text \<open>\<^verbatim>\<open>getStageX\<close>; the component state \<^verbatim>\<open>canvasWidth\<close> is the first argument.\<close>

definition getStageX :: "jsnum \<Rightarrow> jsnum \<Rightarrow> jsnum" where
  "getStageX canvasWidth pos =
     (let normalizedPosition = js_div (js_sub pos (Num CANVAS_MIN_POSITION)) (Num CANVAS_RANGE)
      in js_mul normalizedPosition canvasWidth)"

text \<open>
  \<^verbatim>\<open>getPositionFromX\<close>. With \<^verbatim>\<open>canvasWidth = 0\<close> the quotient is an infinity for a non-zero
  \<^verbatim>\<open>x\<close>, which the clamp turns into an end of the axis, and \<^verbatim>\<open>NaN\<close> for \<^verbatim>\<open>x = 0\<close>, which
  the clamp returns as it is.
\<close>

definition getPositionFromX :: "jsnum \<Rightarrow> jsnum \<Rightarrow> jsnum" where
  "getPositionFromX canvasWidth x =
     (let normalizedX = js_div x canvasWidth;
          pos = js_add (js_mul normalizedX (Num CANVAS_RANGE)) (Num CANVAS_MIN_POSITION)
      in Math_max (Num CANVAS_MIN_POSITION) (Math_min (Num CANVAS_MAX_POSITION) pos))"

text \<open>\<^verbatim>\<open>Math.round\<close> rounds to the nearest integer, a tie towards plus infinity.\<close>

definition Math_round :: "real \<Rightarrow> real" where
  "Math_round x = of_int \<lfloor>x + 1 / 2\<rfloor>"

definition snapToTicker :: "real \<Rightarrow> real" where
  "snapToTicker pos =
     (let tickerPosition = Math_round (pos * 10) / 10
      in max CANVAS_MIN_POSITION (min CANVAS_MAX_POSITION tickerPosition))"

section \<open>Flow conservation engine\<close>

text \<open>\<^verbatim>\<open>reduce((sum, f) => sum + f.value, 0)\<close>\<close>

definition sumValues :: "flow list \<Rightarrow> real" where
  "sumValues fs = foldl (\<lambda>sum f. sum + flow_value f) 0 fs"

definition getIncomingFlowValue :: "string \<Rightarrow> flow list \<Rightarrow> real" where
  "getIncomingFlowValue stageId flowsToUse =
     (let incomingFlows = filter (\<lambda>f. toStageId f = stageId) flowsToUse
      in if length incomingFlows = 0 then 100 else sumValues incomingFlows)"

text \<open>Decimal digits of a number, for the template string of the new flow's name.\<close>

fun string_of_nat :: "nat \<Rightarrow> string" where
  "string_of_nat n =
     (if n < 10 then [char_of (48 + n)]
      else string_of_nat (n div 10) @ [char_of (48 + n mod 10)])"

declare string_of_nat.simps [simp del]

text \<open>\<^verbatim>\<open>flowColor || '#667eea'\<close>: an absent or empty colour gives the default.\<close>

definition colorOrDefault :: "string option \<Rightarrow> string" where
  "colorOrDefault c = (case c of None \<Rightarrow> ''#667eea'' | Some s \<Rightarrow> if s = [] then ''#667eea'' else s)"

text \<open>
  \<^verbatim>\<open>createFlowWithProportionalSplit\<close>. The source reads the incoming value from the
  component's \<^verbatim>\<open>flows\<close> (the default argument of \<^verbatim>\<open>getIncomingFlowValue\<close>), not from
  \<^verbatim>\<open>existingFlows\<close>; \<open>flows\<close> is therefore an argument of its own. \<open>now\<close> stands for
  \<^verbatim>\<open>Date.now().toString()\<close>.
\<close>

definition createFlowWithProportionalSplit ::
  "flow list \<Rightarrow> string \<Rightarrow> string \<Rightarrow> string \<Rightarrow> flow list \<Rightarrow> string option \<Rightarrow> flow list" where
  "createFlowWithProportionalSplit flows now fromId toId existingFlows flowColor =
     (let incomingValue = getIncomingFlowValue fromId flows;
          existingOutgoingFlows = filter (\<lambda>f. fromStageId f = fromId) existingFlows;
          numberOfChildren = length existingOutgoingFlows + 1;
          proportionalValue = incomingValue / real numberOfChildren;
          updatedFlows = map (\<lambda>f. if fromStageId f = fromId
                                    then f\<lparr>flow_value := proportionalValue\<rparr> else f) existingFlows;
          flowsFromSameStage = existingOutgoingFlows;
          branchIdx = length flowsFromSameStage;
          newFlow = \<lparr> flow_id = now,
                      flow_name = ''Flow '' @ string_of_nat (length existingFlows + 1),
                      fromStageId = fromId,
                      toStageId = toId,
                      flow_value = proportionalValue,
                      branchIndex = Some branchIdx,
                      flow_color = Some (colorOrDefault flowColor) \<rparr>
      in updatedFlows @ [newFlow])"

text \<open>\<^verbatim>\<open>Array.prototype.findIndex\<close>; \<open>None\<close> is the source's \<^verbatim>\<open>-1\<close>.\<close>

fun findIndex :: "('a \<Rightarrow> bool) \<Rightarrow> 'a list \<Rightarrow> nat option" where
  "findIndex P [] = None"
| "findIndex P (x # xs) = (if P x then Some 0 else map_option Suc (findIndex P xs))"

text \<open>
  The body of the inner \<^verbatim>\<open>outgoingFlows.forEach\<close> of \<^verbatim>\<open>balanceFlows\<close>: the flow is
  looked up by id in the working copy and the first flow with that id gets the value.
\<close>

definition setValueById :: "real \<Rightarrow> flow \<Rightarrow> flow list \<Rightarrow> flow list" where
  "setValueById proportionalValue fl updatedFlows =
     (case findIndex (\<lambda>f. flow_id f = flow_id fl) updatedFlows of
        None \<Rightarrow> updatedFlows
      | Some index \<Rightarrow>
          updatedFlows[index := (updatedFlows ! index)\<lparr>flow_value := proportionalValue\<rparr>])"

text \<open>The body of the outer \<^verbatim>\<open>stages.forEach\<close> of \<^verbatim>\<open>balanceFlows\<close>.\<close>

definition balanceStage :: "stage \<Rightarrow> flow list \<Rightarrow> flow list" where
  "balanceStage st updatedFlows =
     (let incomingValue = getIncomingFlowValue (stage_id st) updatedFlows;
          outgoingFlows = filter (\<lambda>f. fromStageId f = stage_id st) updatedFlows
      in if length outgoingFlows > 0 then
           (let currentOutgoingSum = sumValues outgoingFlows
            in if \<bar>currentOutgoingSum - incomingValue\<bar> > 1 / 100 then
                 (let proportionalValue = incomingValue / real (length outgoingFlows)
                  in fold (setValueById proportionalValue) outgoingFlows updatedFlows)
               else updatedFlows)
         else updatedFlows)"

text \<open>\<^verbatim>\<open>balanceFlows\<close>; the component's \<^verbatim>\<open>stages\<close> is the first argument.\<close>

definition balanceFlows :: "stage list \<Rightarrow> flow list \<Rightarrow> flow list" where
  "balanceFlows stages flowsToBalance = fold balanceStage stages flowsToBalance"

text \<open>
  The one place of the engine where a divisor can be zero: the first redistribution of
  \<^verbatim>\<open>handleFlowUpdate\<close> computes \<^verbatim>\<open>remainingValue / otherFlowsSum\<close> without a test on
  the sum. In the source the quotient is then \<^verbatim>\<open>Infinity\<close> and every other flow of the
  parent gets \<^verbatim>\<open>value * Infinity\<close>, which is \<^verbatim>\<open>NaN\<close> for a value of zero. The model
  returns \<open>Inl DivisionByZero\<close> there.
\<close>

datatype numeric_error = DivisionByZero

text \<open>
  \<^verbatim>\<open>handleFlowUpdate\<close>. The component state read by the handler (\<^verbatim>\<open>stages\<close>, \<^verbatim>\<open>flows\<close>,
  \<^verbatim>\<open>editingFlow\<close>) is passed in, and the list handed to \<^verbatim>\<open>onFlowsChange\<close> is returned;
  without an edited flow the handler returns at once and the flows stay as they are.
\<close>

definition handleFlowUpdate ::
  "stage list \<Rightarrow> flow list \<Rightarrow> flow option \<Rightarrow> numeric_error + flow list" where
  "handleFlowUpdate stages flows editingFlowOpt =
     (case editingFlowOpt of
        None \<Rightarrow> Inr flows
      | Some editingFlow \<Rightarrow>
         (let sourceStageId = fromStageId editingFlow;
              incomingValue = getIncomingFlowValue sourceStageId flows;
              actualFlowValue = (flow_value editingFlow / 100) * incomingValue;
              clampedFlowValue = max 0 (min actualFlowValue incomingValue);
              flowWithActualValue = editingFlow\<lparr>flow_value := clampedFlowValue\<rparr>;
              updatedFlows = map (\<lambda>f. if flow_id f = flow_id editingFlow
                                        then flowWithActualValue else f) flows;
              outgoingFlows = filter (\<lambda>f. fromStageId f = sourceStageId) updatedFlows;
              firstPass =
                (if length outgoingFlows > 1 then
                   (let otherFlows = filter (\<lambda>f. flow_id f \<noteq> flow_id editingFlow) outgoingFlows;
                        otherFlowsSum = sumValues otherFlows;
                        remainingValue = max 0 (incomingValue - clampedFlowValue)
                    in if length otherFlows > 0 \<and> remainingValue > 0 then
                         (if otherFlowsSum = 0 then Inl DivisionByZero
                          else
                            (let scaleFactor = remainingValue / otherFlowsSum
                             in Inr (map (\<lambda>f. if fromStageId f = sourceStageId
                                                  \<and> flow_id f \<noteq> flow_id editingFlow
                                               then f\<lparr>flow_value := flow_value f * scaleFactor\<rparr>
                                               else f) updatedFlows)))
                       else if length otherFlows > 0 \<and> remainingValue \<le> 0 then
                         Inr (map (\<lambda>f. if fromStageId f = sourceStageId
                                           \<and> flow_id f \<noteq> flow_id editingFlow
                                        then f\<lparr>flow_value := 1 / 100\<rparr>
                                        else f) updatedFlows)
                       else Inr updatedFlows)
                 else Inr updatedFlows)
          in case firstPass of
               Inl e \<Rightarrow> Inl e
             | Inr redistributed \<Rightarrow>
                (let balanced = balanceFlows stages redistributed;
                     reapplied = map (\<lambda>f. if flow_id f = flow_id editingFlow
                                          then flowWithActualValue else f) balanced;
                     finalSourceStageId = fromStageId editingFlow;
                     finalIncomingValue = getIncomingFlowValue finalSourceStageId reapplied;
                     finalOutgoingFlows =
                       filter (\<lambda>f. fromStageId f = finalSourceStageId) reapplied
                 in if length finalOutgoingFlows > 1 then
                      (let finalOtherFlows =
                             filter (\<lambda>f. flow_id f \<noteq> flow_id editingFlow) finalOutgoingFlows;
                           finalOtherFlowsSum = sumValues finalOtherFlows;
                           finalRemainingValue = max 0 (finalIncomingValue - clampedFlowValue)
                       in if length finalOtherFlows > 0 \<and> finalRemainingValue > 0
                             \<and> finalOtherFlowsSum > 0 then
                            (let finalScaleFactor = finalRemainingValue / finalOtherFlowsSum
                             in Inr (map (\<lambda>f. if fromStageId f = finalSourceStageId
                                                  \<and> flow_id f \<noteq> flow_id editingFlow
                                               then f\<lparr>flow_value := flow_value f * finalScaleFactor\<rparr>
                                               else f) reapplied))
                          else Inr reapplied)
                    else Inr reapplied)))"

text \<open>
  The end of \<^verbatim>\<open>handleCanvasClick\<close>, once the click has been accepted and the new stage
  built: the flow to the new stage is created, the flows are balanced over the stages
  of before the click, and the stage is appended. \<open>now\<close> is the id of the new flow.
\<close>

definition createStageAndFlow ::
  "stage list \<Rightarrow> flow list \<Rightarrow> string \<Rightarrow> string \<Rightarrow> stage \<Rightarrow> stage list \<times> flow list" where
  "createStageAndFlow stages flows now selectedStageId newStage =
     (let updatedFlows = createFlowWithProportionalSplit flows now selectedStageId
                           (stage_id newStage) flows (stage_color newStage);
          balanced = balanceFlows stages updatedFlows
      in (stages @ [newStage], balanced))"

text \<open>
  \<open>Out\<close> of the conservation invariant, the sum of the outgoing flows of a stage; \<open>In\<close>
  is \<^verbatim>\<open>getIncomingFlowValue\<close>.
\<close>

definition outgoingSum :: "string \<Rightarrow> flow list \<Rightarrow> real" where
  "outgoingSum stageId flows = sumValues (filter (\<lambda>f. fromStageId f = stageId) flows)"

text \<open>
  A \<^verbatim>\<open>for ... of\<close> loop whose body may fail to return: the state is threaded through
  the elements in order, and the loop returns nothing as soon as one body does.
\<close>

fun forOf :: "('a \<Rightarrow> 'b \<Rightarrow> 'b option) \<Rightarrow> 'a list \<Rightarrow> 'b \<Rightarrow> 'b option" where
  "forOf body [] s = Some s"
| "forOf body (x # xs) s = Option.bind (body x s) (forOf body xs)"

lemma forOf_mono [partial_function_mono]:
  assumes "\<And>x s. mono_option (\<lambda>f. body f x s)"
  shows "mono_option (\<lambda>f. forOf (body f) xs s)"
proof (induction xs arbitrary: s)
  case Nil
  show ?case by (simp add: option.const_mono)
next
  case (Cons x xs)
  show ?case
    unfolding forOf.simps by (rule bind_mono [OF assms Cons.IH])
qed

text \<open>
  \<^verbatim>\<open>recalculateSiblingFlowValues\<close>. The recursion follows the flows and has no bound of
  its own; on a cycle it never ends (the engine then throws \<^verbatim>\<open>RangeError\<close> when the
  call stack is exhausted). \<open>None\<close> is that outcome.
\<close>

partial_function (option) recalculateSiblingFlowValues ::
  "string \<Rightarrow> flow list \<Rightarrow> flow list option" where
  "recalculateSiblingFlowValues parentStageId remainingFlows =
     (let siblingFlows = filter (\<lambda>f. fromStageId f = parentStageId) remainingFlows
      in if length siblingFlows = 0 then Some remainingFlows
         else
           (let incomingValue = getIncomingFlowValue parentStageId remainingFlows;
                proportionalValue = incomingValue / real (length siblingFlows);
                updatedFlows = map (\<lambda>f. if fromStageId f = parentStageId
                                          then f\<lparr>flow_value := proportionalValue\<rparr> else f)
                                   remainingFlows
            in forOf (\<lambda>siblingFlow acc. recalculateSiblingFlowValues (toStageId siblingFlow) acc)
                 siblingFlows updatedFlows))"

text \<open>
  \<^verbatim>\<open>handleStageDelete\<close>: the stages and flows handed to \<^verbatim>\<open>onStagesChange\<close> and
  \<^verbatim>\<open>onFlowsChange\<close>, or the unchanged state when the handler returns early. The test
  \<^verbatim>\<open>if (parentStageId)\<close> fails for an empty id. The selection the handler clears at its
  end is not part of the graph.
\<close>

definition handleStageDelete ::
  "stage list \<Rightarrow> flow list \<Rightarrow> string \<Rightarrow> (stage list \<times> flow list) option" where
  "handleStageDelete stages flows stageId =
     (let incomingFlows = filter (\<lambda>f. toStageId f = stageId) flows
      in if length incomingFlows = 0 then Some (stages, flows)
         else
           (let incomingFlow = find (\<lambda>f. toStageId f = stageId) flows;
                parentStageId = map_option fromStageId incomingFlow;
                updatedStages = filter (\<lambda>s. stage_id s \<noteq> stageId) stages;
                updatedFlows = filter (\<lambda>f. fromStageId f \<noteq> stageId \<and> toStageId f \<noteq> stageId) flows
            in case parentStageId of
                 None \<Rightarrow> Some (updatedStages, updatedFlows)
               | Some parent \<Rightarrow>
                   if parent \<noteq> [] then
                     map_option (Pair updatedStages)
                       (recalculateSiblingFlowValues parent updatedFlows)
                   else Some (updatedStages, updatedFlows)))"

section \<open>Stacking layout engine\<close>

text \<open>
  The two accumulation loops of \<^verbatim>\<open>getNodeHeight\<close> are the same loop over a list of
  flows: the width of each flow, and the spacing after each flow but the last.
\<close>

definition stackedHeight :: "flow list \<Rightarrow> real" where
  "stackedHeight fl =
     fold (\<lambda>i height.
             (let flowWidth = max 20 (flow_value (fl ! i) * HEIGHT_SCALE);
                  height' = height + flowWidth
              in if int i < int (length fl) - 1 then height' + FLOW_SPACING else height'))
          [0..<length fl] 0"

definition getNodeHeight :: "flow list \<Rightarrow> string \<Rightarrow> real" where
  "getNodeHeight flows stageId =
     (let incomingFlows = filter (\<lambda>f. toStageId f = stageId) flows;
          outgoingFlows = filter (\<lambda>f. fromStageId f = stageId) flows;
          incomingHeight = stackedHeight incomingFlows;
          outgoingHeight = stackedHeight outgoingFlows;
          totalHeight = (if length incomingFlows = 0 then outgoingHeight else incomingHeight)
      in if length incomingFlows = 0 \<and> length outgoingFlows = 0 then MIN_MARKER_HEIGHT
         else totalHeight)"

text \<open>\<^verbatim>\<open>stage.yPosition ?? canvasHeight / 2\<close>\<close>

definition getStageY :: "real \<Rightarrow> stage \<Rightarrow> real" where
  "getStageY canvasHeight st =
     (case yPosition st of None \<Rightarrow> canvasHeight / 2 | Some y \<Rightarrow> y)"

text \<open>The properties handed to \<^verbatim>\<open>FlowPath\<close>: the geometry of one rendered flow.\<close>

record flowPath =
  path_fromX :: jsnum
  path_fromY :: real
  path_toX :: jsnum
  path_toY :: real
  path_width :: real
  path_color :: string
  path_label :: string
  path_value :: real

text \<open>
  The offset loops of the render pass: the widths and spacings of the flows stacked
  before index \<open>idx\<close>; an index of \<^verbatim>\<open>-1\<close> (\<open>None\<close>) runs the loop zero times.
\<close>

definition stackOffset :: "flow list \<Rightarrow> nat option \<Rightarrow> real" where
  "stackOffset stacked idx =
     (case idx of
        None \<Rightarrow> 0
      | Some n \<Rightarrow> fold (\<lambda>i offset. offset + (flow_value (stacked ! i) * HEIGHT_SCALE + FLOW_SPACING))
                   [0..<n] 0)"

text \<open>
  The body of the flow render loop (\<^verbatim>\<open>flows.map(flow => ...)\<close>): \<open>None\<close> is the source's
  \<^verbatim>\<open>return null\<close>, nothing rendered. Both sorts of the source are stable. The horizontal
  coordinates come from \<^verbatim>\<open>getStageX\<close> and are doubles; the vertical ones are computed over
  the reals like the node heights.
\<close>

definition renderFlow ::
  "real \<Rightarrow> real \<Rightarrow> stage list \<Rightarrow> flow list \<Rightarrow> flow \<Rightarrow> flowPath option" where
  "renderFlow canvasWidth canvasHeight stages flows fl =
     (case find (\<lambda>s. stage_id s = fromStageId fl) stages of
        None \<Rightarrow> None
      | Some fromStage \<Rightarrow>
         (case find (\<lambda>s. stage_id s = toStageId fl) stages of
            None \<Rightarrow> None
          | Some toStage \<Rightarrow>
             (let fromX = getStageX (Num canvasWidth) (Num (position fromStage));
                  toX = getStageX (Num canvasWidth) (Num (position toStage));
                  fromY = getStageY canvasHeight fromStage;
                  toY = getStageY canvasHeight toStage;
                  fromNodeHeight = getNodeHeight flows (stage_id fromStage);
                  toNodeHeight = getNodeHeight flows (stage_id toStage);
                  fromNodeTop = fromY - fromNodeHeight / 2;
                  toNodeTop = toY - toNodeHeight / 2;
                  flowWidth = max 20 (flow_value fl * HEIGHT_SCALE);
                  flowsFromSameSource =
                    sort_key (\<lambda>f. case branchIndex f of None \<Rightarrow> 0 | Some b \<Rightarrow> b)
                      (filter (\<lambda>f. fromStageId f = fromStageId fl) flows);
                  currentIndex = findIndex (\<lambda>f. flow_id f = flow_id fl) flowsFromSameSource;
                  sourceOffset = stackOffset flowsFromSameSource currentIndex;
                  sourceFlowCenter = fromNodeTop + sourceOffset + flowWidth / 2;
                  flowsToSameTarget =
                    map fst (sort_key snd
                      (map (\<lambda>f. (f, case find (\<lambda>s. stage_id s = fromStageId f) stages of
                                       None \<Rightarrow> 0
                                     | Some st \<Rightarrow> getStageY canvasHeight st))
                           (filter (\<lambda>f. toStageId f = toStageId fl) flows)));
                  targetIndex = findIndex (\<lambda>f. flow_id f = flow_id fl) flowsToSameTarget;
                  targetOffset = stackOffset flowsToSameTarget targetIndex;
                  targetFlowCenter = toNodeTop + targetOffset + flowWidth / 2;
                  exitPointX = js_add fromX (Num 5);
                  entryPointX = js_sub toX (Num 5);
                  flowColor = colorOrDefault (flow_color fl)
              in Some \<lparr> path_fromX = exitPointX,
                        path_fromY = sourceFlowCenter,
                        path_toX = entryPointX,
                        path_toY = targetFlowCenter,
                        path_width = flowWidth,
                        path_color = flowColor,
                        path_label = flow_name fl,
                        path_value = flow_value fl \<rparr>)))"

definition renderFlows ::
  "real \<Rightarrow> real \<Rightarrow> stage list \<Rightarrow> flow list \<Rightarrow> flowPath option list" where
  "renderFlows canvasWidth canvasHeight stages flows =
     map (renderFlow canvasWidth canvasHeight stages flows) flows"

section \<open>Notions used by the statements\<close>

text \<open>Two flows that differ in their value at most.\<close>

definition unchangedButValue :: "flow \<Rightarrow> flow \<Rightarrow> bool" where
  "unchangedButValue f g =
     (flow_id g = flow_id f \<and> flow_name g = flow_name f \<and> fromStageId g = fromStageId f
      \<and> toStageId g = toStageId f \<and> branchIndex g = branchIndex f
      \<and> flow_color g = flow_color f)"

text \<open>
  A list of stage ids is in topological order for the flows when no flow enters a stage
  from that stage itself or from a stage later in the list.
\<close>

fun topoOrdered :: "string list \<Rightarrow> flow list \<Rightarrow> bool" where
  "topoOrdered [] fs = True"
| "topoOrdered (s # ss) fs =
     ((\<forall>f \<in> set fs. toStageId f = s \<longrightarrow> fromStageId f \<notin> set (s # ss)) \<and> topoOrdered ss fs)"

text \<open>
  A stage is balanced when it has no outgoing flow or its outgoing flows sum to its
  incoming value within 0.01: the condition under which \<^verbatim>\<open>balanceFlows\<close> leaves the
  stage alone.
\<close>

definition balancedAt :: "string \<Rightarrow> flow list \<Rightarrow> bool" where
  "balancedAt s fs =
     (filter (\<lambda>f. fromStageId f = s) fs = []
      \<or> \<bar>outgoingSum s fs - getIncomingFlowValue s fs\<bar> \<le> 1 / 100)"

section \<open>Example data\<close>

text \<open>
  The seed stage of the editor (\<^verbatim>\<open>App.tsx\<close>) and shorthands for the stages and flows of
  the scenarios evaluated below.
\<close>

definition rootStage :: stage where
  "rootStage = \<lparr> stage_id = ''1'', stage_name = ''Start'', position = 0,
                  yPosition = None, stage_color = Some ''#667eea'' \<rparr>"

definition mkStage :: "string \<Rightarrow> real \<Rightarrow> stage" where
  "mkStage i pos = \<lparr> stage_id = i, stage_name = ''Stage'', position = pos,
                      yPosition = None, stage_color = None \<rparr>"

definition mkFlow :: "string \<Rightarrow> string \<Rightarrow> string \<Rightarrow> real \<Rightarrow> nat \<Rightarrow> flow" where
  "mkFlow i src dst v b = \<lparr> flow_id = i, flow_name = ''Flow'', fromStageId = src,
                            toStageId = dst, flow_value = v, branchIndex = Some b,
                            flow_color = None \<rparr>"

text \<open>
  A flow as \<^verbatim>\<open>createFlowWithProportionalSplit\<close> builds it when no colour is passed: \<open>n\<close>
  is the number in its name.
\<close>

definition createdFlow ::
  "string \<Rightarrow> string \<Rightarrow> string \<Rightarrow> string \<Rightarrow> real \<Rightarrow> nat \<Rightarrow> flow" where
  "createdFlow i n src dst v b = \<lparr> flow_id = i, flow_name = ''Flow '' @ n, fromStageId = src,
                                  toStageId = dst, flow_value = v, branchIndex = Some b,
                                  flow_color = Some ''#667eea'' \<rparr>"

text \<open>
  The editor after three branches from the seed stage to new stages. The colour heuristic
  of the source is left out: the new stages carry no colour here and their flows get the
  default one, which no value depends on.
\<close>

definition threeBranches :: "stage list \<times> flow list" where
  "threeBranches =
     (let (stages1, flows1) = createStageAndFlow [rootStage] [] ''f1'' ''1'' (mkStage ''2'' 30);
          (stages2, flows2) = createStageAndFlow stages1 flows1 ''f2'' ''1'' (mkStage ''3'' 30)
      in createStageAndFlow stages2 flows2 ''f3'' ''1'' (mkStage ''4'' 30))"

section \<open>Theorems\<close>

lemmas canvas_consts =
  CANVAS_MIN_POSITION_def CANVAS_MAX_POSITION_def CANVAS_RANGE_def

subsection \<open>Coordinate mapper\<close>


lemma binaryExponent_bounds:
  assumes "x \<noteq> 0"
  shows "2 powi binaryExponent x \<le> \<bar>x\<bar> \<and> \<bar>x\<bar> < 2 powi (binaryExponent x + 1)"
proof (cases "1 \<le> \<bar>x\<bar>")
  case True
  define n where "n = \<lfloor>\<bar>x\<bar>\<rfloor>"
  have n: "0 < n" using True unfolding n_def by linarith
  have e: "binaryExponent x = bitlen n - 1" using True by (simp add: binaryExponent_def n_def)
  have b1: "1 \<le> bitlen n" using n by (simp add: bitlen_alt_def)
  from bitlen_bounds [OF n] have lo: "2 ^ nat (bitlen n - 1) \<le> n" and hi: "n < 2 ^ nat (bitlen n)" by auto
  have "(2::real) ^ nat (bitlen n - 1) \<le> of_int n" using lo
    by (metis of_int_le_iff of_int_numeral of_int_power)
  also have "\<dots> \<le> \<bar>x\<bar>" unfolding n_def by linarith
  finally have 1: "2 powi (bitlen n - 1) \<le> \<bar>x\<bar>" using b1 by (simp add: power_int_def)
  have "n + 1 \<le> 2 ^ nat (bitlen n)" using hi by linarith
  then have "of_int (n + 1) \<le> (2::real) ^ nat (bitlen n)"
    by (metis of_int_le_iff of_int_numeral of_int_power)
  moreover have "\<bar>x\<bar> < of_int (n + 1)" unfolding n_def by linarith
  ultimately have 2: "\<bar>x\<bar> < 2 powi (bitlen n)" using b1 by (simp add: power_int_def)
  show ?thesis unfolding e using 1 2 by simp
next
  case False
  define a where "a = \<bar>x\<bar>"
  have a: "0 < a" "a < 1" using assms False by (simp_all add: a_def)
  define m where "m = \<lfloor>1 / a\<rfloor>"
  have "1 < 1 / a" using a by simp
  then have m: "0 < m" unfolding m_def by linarith
  define j where "j = bitlen m - 1"
  have j0: "0 \<le> j" using m by (simp add: j_def bitlen_alt_def)
  from bitlen_bounds [OF m] have lo: "2 ^ nat j \<le> m" and hi: "m < 2 ^ nat (j + 1)"
    by (auto simp add: j_def)
  have "(2::real) ^ nat j \<le> of_int m" using lo
    by (metis of_int_le_iff of_int_numeral of_int_power)
  also have "\<dots> \<le> 1 / a" unfolding m_def by linarith
  finally have up: "a \<le> 1 / 2 ^ nat j" using a by (simp add: field_simps)
  have "m + 1 \<le> 2 ^ nat (j + 1)" using hi by linarith
  then have "of_int (m + 1) \<le> (2::real) ^ nat (j + 1)"
    by (metis of_int_le_iff of_int_numeral of_int_power)
  moreover have "1 / a < of_int (m + 1)" unfolding m_def by linarith
  ultimately have "1 / a < 2 ^ nat (j + 1)" by linarith
  then have dn: "1 / 2 ^ nat (j + 1) < a" using a by (simp add: field_simps)
  have e: "binaryExponent x = (if a = 1 / 2 ^ nat j then - j else - j - 1)"
    using False by (simp add: binaryExponent_def a_def m_def j_def Let_def)
  have pj: "2 powi (- j) = 1 / (2::real) ^ nat j"
    using j0 by (simp add: power_int_def field_simps power_inverse)
  have pj1: "2 powi (- j - 1) = 1 / (2::real) ^ nat (j + 1)"
    using j0 by (simp add: power_int_def field_simps power_inverse nat_add_distrib)
  have "(2::real) powi (- j + 1) = 2 powi (- j) * 2 powi 1"
    by (rule power_int_add) simp
  then have pj2: "2 powi (- j + 1) = 2 / (2::real) ^ nat j"
    unfolding pj by simp
  show ?thesis
  proof (cases "a = 1 / 2 ^ nat j")
    case True
    then have "binaryExponent x = - j" using e by simp
    moreover have "1 / (2::real) ^ nat j < 2 / 2 ^ nat j"
      by (simp add: divide_strict_right_mono)
    ultimately show ?thesis using True pj pj2 by (simp add: a_def)
  next
    case F: False
    then have "binaryExponent x = - j - 1" using e by simp
    moreover have "a < 1 / 2 ^ nat j" using up F by simp
    ultimately show ?thesis using pj pj1 dn by (simp add: a_def)
  qed
qed

lemma binaryExponent_unique:
  assumes "2 powi k \<le> \<bar>x\<bar>" and "\<bar>x\<bar> < 2 powi (k + 1)"
  shows "binaryExponent x = k"
proof -
  have "0 < (2::real) powi k" by simp
  then have "0 < \<bar>x\<bar>" using assms(1) by linarith
  then have x: "x \<noteq> 0" by simp
  let ?e = "binaryExponent x"
  note b = binaryExponent_bounds [OF x]
  have "\<not> ?e < k"
  proof
    assume "?e < k"
    then have "(2::real) powi (?e + 1) \<le> 2 powi k"
      by (intro power_int_increasing) simp_all
    then show False using b assms(1) by linarith
  qed
  moreover have "\<not> k < ?e"
  proof
    assume "k < ?e"
    then have "(2::real) powi (k + 1) \<le> 2 powi ?e"
      by (intro power_int_increasing) simp_all
    then show False using b assms(2) by linarith
  qed
  ultimately show ?thesis by simp
qed

lemma double_of_real_eval:
  assumes "2 powi k \<le> \<bar>x\<bar>" and "\<bar>x\<bar> < 2 powi (k + 1)"
  shows "double_of_real x =
     (let q = max (k - 52) (- 1074);
          r = of_int (roundTiesToEven (x / 2 powi q)) * 2 powi q
      in if 2 ^ 1024 \<le> r then PosInf
         else if r \<le> - (2 ^ 1024) then NegInf
         else Num r)"
proof -
  have "0 < (2::real) powi k" by simp
  then have "0 < \<bar>x\<bar>" using assms(1) by linarith
  then have x: "x \<noteq> 0" by simp
  show ?thesis
    using x by (simp add: double_of_real_def binaryExponent_unique [OF assms])
qed








text \<open>Roundings of the examples on a canvas 1200 wide.\<close>

lemma double_of_real_small_values:
  "double_of_real 10 = Num 10" "double_of_real 60 = Num 60"
  "double_of_real (10 / 120) = Num (6004799503160661 / 72057594037927936)"
  "double_of_real (6004799503160661 / 72057594037927936 * 1200) = Num 100"
  "double_of_real (60 / 120) = Num (1 / 2)"
  "double_of_real (1 / 2 * 1200) = Num 600"
  "double_of_real (600 / 1200) = Num (1 / 2)"
  "double_of_real (1 / 2 * 120) = Num 60"
  "double_of_real (60 + - 10) = Num 50"
  "double_of_real (100 + 5) = Num 105"
  "double_of_real (600 + - 5) = Num 595"
proof -
  show "double_of_real 10 = Num 10"
    by (subst double_of_real_eval [of 3]) (simp_all add: roundTiesToEven_def)
  show "double_of_real 60 = Num 60"
    by (subst double_of_real_eval [of 5]) (simp_all add: roundTiesToEven_def)
  show "double_of_real (10 / 120) = Num (6004799503160661 / 72057594037927936)"
    by (subst double_of_real_eval [of "- 4"]) (simp_all add: roundTiesToEven_def)
  show "double_of_real (6004799503160661 / 72057594037927936 * 1200) = Num 100"
    by (subst double_of_real_eval [of 6]) (simp_all add: roundTiesToEven_def)
  show "double_of_real (60 / 120) = Num (1 / 2)"
    by (subst double_of_real_eval [of "- 1"]) (simp_all add: roundTiesToEven_def)
  show "double_of_real (1 / 2 * 1200) = Num 600"
    by (subst double_of_real_eval [of 9]) (simp_all add: roundTiesToEven_def)
  show "double_of_real (600 / 1200) = Num (1 / 2)"
    by (subst double_of_real_eval [of "- 1"]) (simp_all add: roundTiesToEven_def)
  show "double_of_real (1 / 2 * 120) = Num 60"
    by (subst double_of_real_eval [of 5]) (simp_all add: roundTiesToEven_def)
  show "double_of_real (60 + - 10) = Num 50"
    by (subst double_of_real_eval [of 5]) (simp_all add: roundTiesToEven_def)
  show "double_of_real (100 + 5) = Num 105"
    by (subst double_of_real_eval [of 6]) (simp_all add: roundTiesToEven_def)
  show "double_of_real (600 + - 5) = Num 595"
    by (subst double_of_real_eval [of 9]) (simp_all add: roundTiesToEven_def)
qed

text \<open>
  The width has to stay in the normal range too: on a width of \<open>2 ^ -1074\<close>, the least
  positive double, the product underflows to zero and the position 50 comes back as -10.
\<close>

lemma roundtrip_fails_on_subnormal_width:
  "getStageX (Num (1 / 2 ^ 1074)) (Num 50) = Num 0"
  "getPositionFromX (Num (1 / 2 ^ 1074)) (Num 0) = Num (- 10)"
proof -
  have h: "double_of_real (1 / 2 * (1 / 2 ^ 1074)) = Num 0"
    by (subst double_of_real_eval [of "- 1075"]) (simp_all add: roundTiesToEven_def power_int_minus)
  have m10: "double_of_real (- 10) = Num (- 10)"
    by (subst double_of_real_eval [of 3]) (simp_all add: roundTiesToEven_def)
  show "getStageX (Num (1 / 2 ^ 1074)) (Num 50) = Num 0"
    using h double_of_real_small_values
    by (simp add: getStageX_def js_sub_def canvas_consts)
  show "getPositionFromX (Num (1 / 2 ^ 1074)) (Num 0) = Num (- 10)"
    using m10 by (simp add: getPositionFromX_def canvas_consts double_of_real_def)
qed



lemma snapToTicker_range: "-10 \<le> snapToTicker p \<and> snapToTicker p \<le> 110"
  by (simp add: snapToTicker_def canvas_consts Let_def)

lemma Math_round_of_int: "Math_round (of_int k) = of_int k"
  by (simp add: Math_round_def)

lemma snapToTicker_on_tick:
  assumes "-100 \<le> k" and "k \<le> 1100"
  shows "snapToTicker (of_int k / 10) = of_int k / 10"
proof -
  have r: "(of_int k :: real) \<ge> -100" "(of_int k :: real) \<le> 1100"
    using assms by linarith+
  have "Math_round (of_int k / 10 * 10) = of_int k"
    using Math_round_of_int [of k] by simp
  then show ?thesis
    using r by (simp add: snapToTicker_def canvas_consts)
qed

lemma snapToTicker_is_tick:
  "\<exists>k. -100 \<le> k \<and> k \<le> 1100 \<and> snapToTicker p = of_int k / 10"
proof -
  define k where "k = \<lfloor>p * 10 + 1 / 2\<rfloor>"
  have t: "Math_round (p * 10) / 10 = of_int k / 10"
    by (simp add: Math_round_def k_def)
  consider "k < -100" | "-100 \<le> k \<and> k \<le> 1100" | "1100 < k"
    by linarith
  then show ?thesis
  proof cases
    case 1
    then have "(of_int k :: real) < -100" by linarith
    then have "snapToTicker p = of_int (-100) / 10"
      unfolding snapToTicker_def Let_def t canvas_consts by simp
    then show ?thesis by (intro exI [of _ "-100"]) simp
  next
    case 2
    then have "(of_int k :: real) \<ge> -100" "(of_int k :: real) \<le> 1100" by linarith+
    then have "snapToTicker p = of_int k / 10"
      unfolding snapToTicker_def Let_def t canvas_consts by simp
    then show ?thesis using 2 by blast
  next
    case 3
    then have "(of_int k :: real) > 1100" by linarith
    then have "snapToTicker p = of_int 1100 / 10"
      unfolding snapToTicker_def Let_def t canvas_consts by simp
    then show ?thesis by (intro exI [of _ "1100"]) simp
  qed
qed

text \<open>
  C10. \<^verbatim>\<open>snapToTicker\<close> lands in \<open>[-10, 110]\<close> for every position, and snapping a snapped
  position changes nothing.
\<close>

theorem snapToTicker_idempotent_bounded:
  "-10 \<le> snapToTicker p \<and> snapToTicker p \<le> 110
   \<and> snapToTicker (snapToTicker p) = snapToTicker p"
proof -
  obtain k where k: "-100 \<le> k" "k \<le> 1100" "snapToTicker p = of_int k / 10"
    using snapToTicker_is_tick by blast
  have "snapToTicker (snapToTicker p) = snapToTicker p"
    unfolding k(3) using snapToTicker_on_tick [OF k(1) k(2)] .
  then show ?thesis
    using snapToTicker_range [of p] by simp
qed

subsection \<open>Frame of branch creation and rebalance\<close>

lemma unchangedButValue_refl: "unchangedButValue f f"
  by (simp add: unchangedButValue_def)

lemma unchangedButValue_trans:
  "unchangedButValue f g \<Longrightarrow> unchangedButValue g h \<Longrightarrow> unchangedButValue f h"
  by (simp add: unchangedButValue_def)

lemma unchangedButValue_update: "unchangedButValue f (f\<lparr>flow_value := v\<rparr>)"
  by (simp add: unchangedButValue_def)

lemma list_all2_unchanged_refl: "list_all2 unchangedButValue fs fs"
  by (simp add: list_all2_refl unchangedButValue_refl)

lemma list_all2_unchanged_trans:
  "list_all2 unchangedButValue xs ys \<Longrightarrow> list_all2 unchangedButValue ys zs
   \<Longrightarrow> list_all2 unchangedButValue xs zs"
  by (rule list_all2_trans [of unchangedButValue unchangedButValue unchangedButValue])
     (auto intro: unchangedButValue_trans)

lemma findIndex_Some: "findIndex P xs = Some i \<Longrightarrow> i < length xs \<and> P (xs ! i)"
  by (induction xs arbitrary: i) (auto split: if_splits)

lemma setValueById_frame: "list_all2 unchangedButValue fs (setValueById v fl fs)"
proof (cases "findIndex (\<lambda>f. flow_id f = flow_id fl) fs")
  case None
  then show ?thesis
    by (simp add: setValueById_def list_all2_unchanged_refl)
next
  case (Some i)
  then have "i < length fs"
    using findIndex_Some by fastforce
  then show ?thesis
    using Some
    by (auto simp add: setValueById_def list_all2_conv_all_nth nth_list_update
        unchangedButValue_refl unchangedButValue_update)
qed

lemma fold_setValueById_frame:
  "list_all2 unchangedButValue fs (fold (setValueById v) out fs)"
proof (induction out arbitrary: fs)
  case Nil
  show ?case by (simp add: list_all2_unchanged_refl)
next
  case (Cons a out)
  show ?case
    using list_all2_unchanged_trans [OF setValueById_frame Cons.IH] by simp
qed

lemma balanceStage_frame: "list_all2 unchangedButValue fs (balanceStage st fs)"
  by (simp add: balanceStage_def Let_def fold_setValueById_frame list_all2_unchanged_refl)

lemma balanceFlows_frame: "list_all2 unchangedButValue fs (balanceFlows ss fs)"
  unfolding balanceFlows_def
proof (induction ss arbitrary: fs)
  case Nil
  show ?case by (simp add: list_all2_unchanged_refl)
next
  case (Cons s ss)
  show ?case
    using list_all2_unchanged_trans [OF balanceStage_frame Cons.IH] by simp
qed

text \<open>
  What \<^verbatim>\<open>createFlowWithProportionalSplit\<close> returns: the existing flows, those of the
  source stage with the new share as value, and one new flow at the end.
\<close>

lemma createFlow_shape:
  "\<exists>newFlow. createFlowWithProportionalSplit flows now fromId toId existing c
      = map (\<lambda>f. if fromStageId f = fromId
                  then f\<lparr>flow_value := getIncomingFlowValue fromId flows
                         / real (length (filter (\<lambda>f. fromStageId f = fromId) existing) + 1)\<rparr>
                  else f) existing @ [newFlow]
    \<and> fromStageId newFlow = fromId \<and> toStageId newFlow = toId
    \<and> flow_id newFlow = now
    \<and> flow_value newFlow = getIncomingFlowValue fromId flows
                         / real (length (filter (\<lambda>f. fromStageId f = fromId) existing) + 1)
    \<and> branchIndex newFlow = Some (length (filter (\<lambda>f. fromStageId f = fromId) existing))"
  by (simp add: createFlowWithProportionalSplit_def Let_def)

text \<open>
  C9. Branch creation and rebalance change the value of an existing flow at most: the
  flows of the input are in the output at their places, with the same id, name, end
  points, branch index and colour. \<^verbatim>\<open>createFlowWithProportionalSplit\<close> appends exactly one
  flow; \<^verbatim>\<open>balanceFlows\<close> returns a list of the length of its input.
\<close>

theorem branch_and_rebalance_frame:
  "list_all2 unchangedButValue existing
      (butlast (createFlowWithProportionalSplit flows now fromId toId existing c))
   \<and> length (createFlowWithProportionalSplit flows now fromId toId existing c)
        = length existing + 1
   \<and> list_all2 unchangedButValue fs (balanceFlows ss fs)
   \<and> length (balanceFlows ss fs) = length fs"
proof -
  obtain n where n: "createFlowWithProportionalSplit flows now fromId toId existing c
      = map (\<lambda>f. if fromStageId f = fromId
                  then f\<lparr>flow_value := getIncomingFlowValue fromId flows
                         / real (length (filter (\<lambda>f. fromStageId f = fromId) existing) + 1)\<rparr>
                  else f) existing @ [n]"
    using createFlow_shape by blast
  have "list_all2 unchangedButValue existing
      (butlast (createFlowWithProportionalSplit flows now fromId toId existing c))"
    unfolding n
    by (simp add: list_all2_conv_all_nth unchangedButValue_refl unchangedButValue_update)
  moreover have "length (createFlowWithProportionalSplit flows now fromId toId existing c)
        = length existing + 1"
    unfolding n by simp
  moreover note balanceFlows_frame [of fs ss]
  moreover have "length (balanceFlows ss fs) = length fs"
    using balanceFlows_frame [of fs ss] by (simp add: list_all2_lengthD)
  ultimately show ?thesis by blast
qed

subsection \<open>Equal split on branch creation\<close>

text \<open>
  C3. After \<^verbatim>\<open>createFlowWithProportionalSplit\<close> from a stage that then has \<open>k\<close> outgoing
  flows (the ones it had and the new one), every outgoing flow of that stage has the
  value \<open>incomingValue / k\<close>, where \<open>incomingValue\<close> is the incoming value the function
  reads for the stage; the branch index of the new flow, the last of the list, is the
  number of outgoing flows the stage had before.
\<close>

theorem branch_creation_equal_split:
  "(\<forall>f \<in> set (createFlowWithProportionalSplit flows now fromId toId existing c).
       fromStageId f = fromId \<longrightarrow>
       flow_value f = getIncomingFlowValue fromId flows
                      / real (length (filter (\<lambda>f. fromStageId f = fromId) existing) + 1))
   \<and> length (filter (\<lambda>f. fromStageId f = fromId)
        (createFlowWithProportionalSplit flows now fromId toId existing c))
      = length (filter (\<lambda>f. fromStageId f = fromId) existing) + 1
   \<and> branchIndex (last (createFlowWithProportionalSplit flows now fromId toId existing c))
      = Some (length (filter (\<lambda>f. fromStageId f = fromId) existing))"
proof -
  obtain n where n: "createFlowWithProportionalSplit flows now fromId toId existing c
      = map (\<lambda>f. if fromStageId f = fromId
                  then f\<lparr>flow_value := getIncomingFlowValue fromId flows
                         / real (length (filter (\<lambda>f. fromStageId f = fromId) existing) + 1)\<rparr>
                  else f) existing @ [n]"
    and m: "fromStageId n = fromId"
      "flow_value n = getIncomingFlowValue fromId flows
          / real (length (filter (\<lambda>f. fromStageId f = fromId) existing) + 1)"
      "branchIndex n = Some (length (filter (\<lambda>f. fromStageId f = fromId) existing))"
    using createFlow_shape by blast
  have len: "length (filter (\<lambda>f. fromStageId f = fromId)
                 (map (\<lambda>f. if fromStageId f = fromId then f\<lparr>flow_value := v\<rparr> else f) existing))
             = length (filter (\<lambda>f. fromStageId f = fromId) existing)" for v
    by (induction existing) auto
  show ?thesis
    unfolding n using m len by auto
qed

text \<open>Scenario A of the specification: the second branch from the root halves its budget.\<close>

theorem branch_creation_equal_split_witness:
  "map flow_value (createFlowWithProportionalSplit [mkFlow ''f1'' ''1'' ''2'' 100 0]
                     ''f2'' ''1'' ''3'' [mkFlow ''f1'' ''1'' ''2'' 100 0] None) = [50, 50]
   \<and> map fromStageId (createFlowWithProportionalSplit [mkFlow ''f1'' ''1'' ''2'' 100 0]
                     ''f2'' ''1'' ''3'' [mkFlow ''f1'' ''1'' ''2'' 100 0] None) = [''1'', ''1'']
   \<and> branchIndex (last (createFlowWithProportionalSplit [mkFlow ''f1'' ''1'' ''2'' 100 0]
                     ''f2'' ''1'' ''3'' [mkFlow ''f1'' ''1'' ''2'' 100 0] None)) = Some 1"
  using branch_creation_equal_split [of "[mkFlow ''f1'' ''1'' ''2'' 100 0]" "''f2''" "''1''"
      "''3''" "[mkFlow ''f1'' ''1'' ''2'' 100 0]" None]
  by (simp add: createFlowWithProportionalSplit_def getIncomingFlowValue_def mkFlow_def)

subsection \<open>Node height\<close>

lemma stackedHeight_prefix:
  "n \<le> length fl \<Longrightarrow>
   fold (\<lambda>i height.
           (let flowWidth = max 20 (flow_value (fl ! i) * HEIGHT_SCALE);
                height' = height + flowWidth
            in if int i < int (length fl) - 1 then height' + FLOW_SPACING else height'))
        [0..<n] 0
   = sum_list (map (\<lambda>f. max 20 (flow_value f * 8)) (take n fl))
     + 8 * real (min n (length fl - 1))"
proof (induction n)
  case 0
  show ?case by simp
next
  case (Suc n)
  then have n: "n < length fl" by simp
  have t: "take (Suc n) fl = take n fl @ [fl ! n]"
    using n by (simp add: take_Suc_conv_app_nth)
  show ?case
    using Suc.IH n unfolding t
    by (auto simp add: Let_def HEIGHT_SCALE_def FLOW_SPACING_def min_def)
qed

lemma stackedHeight_sum:
  "stackedHeight fl = sum_list (map (\<lambda>f. max 20 (flow_value f * 8)) fl)
     + 8 * real (length fl - 1)"
  unfolding stackedHeight_def using stackedHeight_prefix [of "length fl" fl] by simp

text \<open>
  C6. The height of a stage with incoming flows is the sum of \<open>max 20 (value * 8)\<close> over
  its incoming flows plus \<open>8\<close> for each flow but one; a stage with outgoing flows only
  gets the same sum over its outgoing flows; a stage with no flow gets the minimum marker
  height 480. Two incoming flows of values 10 and 20 give 80 + 8 + 160 = 248.
\<close>

theorem node_height_formula:
  "getNodeHeight flows sid =
     (if filter (\<lambda>f. toStageId f = sid) flows \<noteq> [] then
        (\<Sum>f\<leftarrow>filter (\<lambda>f. toStageId f = sid) flows. max 20 (flow_value f * 8))
        + 8 * (real (length (filter (\<lambda>f. toStageId f = sid) flows)) - 1)
      else if filter (\<lambda>f. fromStageId f = sid) flows \<noteq> [] then
        (\<Sum>f\<leftarrow>filter (\<lambda>f. fromStageId f = sid) flows. max 20 (flow_value f * 8))
        + 8 * (real (length (filter (\<lambda>f. fromStageId f = sid) flows)) - 1)
      else 480)
   \<and> (\<forall>a b. filter (\<lambda>f. toStageId f = sid) flows = [a, b]
            \<and> flow_value a = 10 \<and> flow_value b = 20
        \<longrightarrow> getNodeHeight flows sid = 248)"
proof -
  have r: "xs \<noteq> [] \<Longrightarrow> 8 * real (length xs - Suc 0) = 8 * real (length xs) - 8"
    for xs :: "flow list"
    by (cases xs) simp_all
  have 1: "getNodeHeight flows sid =
     (if filter (\<lambda>f. toStageId f = sid) flows \<noteq> [] then
        (\<Sum>f\<leftarrow>filter (\<lambda>f. toStageId f = sid) flows. max 20 (flow_value f * 8))
        + 8 * (real (length (filter (\<lambda>f. toStageId f = sid) flows)) - 1)
      else if filter (\<lambda>f. fromStageId f = sid) flows \<noteq> [] then
        (\<Sum>f\<leftarrow>filter (\<lambda>f. fromStageId f = sid) flows. max 20 (flow_value f * 8))
        + 8 * (real (length (filter (\<lambda>f. fromStageId f = sid) flows)) - 1)
      else 480)"
    by (simp add: getNodeHeight_def Let_def stackedHeight_sum r MIN_MARKER_HEIGHT_def)
  have 2: "getNodeHeight flows sid = 248"
    if "filter (\<lambda>f. toStageId f = sid) flows = [a, b]" "flow_value a = 10" "flow_value b = 20"
    for a b
    unfolding 1 using that by simp
  show ?thesis
    using 1 2 by blast
qed

text \<open>Scenario D of the specification, a stage with one outgoing flow, and a lone stage.\<close>

theorem node_height_formula_witness:
  "getNodeHeight [mkFlow ''f1'' ''1'' ''3'' 10 0, mkFlow ''f2'' ''2'' ''3'' 20 0] ''3'' = 248
   \<and> getNodeHeight [mkFlow ''f1'' ''1'' ''3'' 10 0, mkFlow ''f2'' ''2'' ''3'' 20 0] ''1'' = 80
   \<and> getNodeHeight [mkFlow ''f1'' ''1'' ''3'' 10 0, mkFlow ''f2'' ''2'' ''3'' 20 0] ''4'' = 480"
  using node_height_formula
          [of "[mkFlow ''f1'' ''1'' ''3'' 10 0, mkFlow ''f2'' ''2'' ''3'' 20 0]" "''3''"]
        node_height_formula
          [of "[mkFlow ''f1'' ''1'' ''3'' 10 0, mkFlow ''f2'' ''2'' ''3'' 20 0]" "''1''"]
        node_height_formula
          [of "[mkFlow ''f1'' ''1'' ''3'' 10 0, mkFlow ''f2'' ''2'' ''3'' 20 0]" "''4''"]
  by (simp add: mkFlow_def)

subsection \<open>Hanging flows\<close>

lemma find_Some_member: "find P xs = Some x \<Longrightarrow> x \<in> set xs \<and> P x"
  by (induction xs) (auto split: if_splits)

text \<open>A flow gets geometry exactly when both its stages are in the stages list.\<close>

lemma renderFlow_Some_iff:
  "(\<exists>g. renderFlow cw ch stages flows fl = Some g) \<longleftrightarrow>
   (\<exists>s \<in> set stages. stage_id s = fromStageId fl)
   \<and> (\<exists>s \<in> set stages. stage_id s = toStageId fl)"
  by (auto simp add: renderFlow_def Let_def find_None_iff split: option.splits
      dest: find_Some_member)

lemma render_example_geometry:
  "renderFlows 1200 800 [rootStage, mkStage ''2'' 50]
      [mkFlow ''f1'' ''1'' ''2'' 50 0, mkFlow ''f2'' ''1'' ''3'' 50 1] ! 0
   = Some \<lparr> path_fromX = Num 105, path_fromY = 196, path_toX = Num 595, path_toY = 400,
             path_width = 400, path_color = ''#667eea'', path_label = ''Flow'',
             path_value = 50 \<rparr>"
  using double_of_real_small_values
  by (simp add: renderFlows_def renderFlow_def rootStage_def mkStage_def mkFlow_def Let_def
      getStageX_def js_sub_def getStageY_def getNodeHeight_def stackedHeight_def stackOffset_def
      colorOrDefault_def canvas_consts HEIGHT_SCALE_def FLOW_SPACING_def upt_rec)

text \<open>
  C8 as stated fails: a hanging flow is not excluded from layout entirely. With the seed
  stage and a stage \<open>2\<close> on a canvas 1200 by 800, a flow \<open>f1\<close> of 50 from \<open>1\<close> to \<open>2\<close> and a
  flow \<open>f2\<close> of 50 from \<open>1\<close> to a stage \<open>3\<close> that is not in the stages list, \<open>f2\<close> still
  counts in the node height of its source stage, 808 against 400 without it, and so moves
  the point where its rendered sibling \<open>f1\<close> leaves the source node, 196 against 400.
\<close>

theorem hanging_flow_counts_in_layout_counterexample:
  "find (\<lambda>s. stage_id s = toStageId (mkFlow ''f2'' ''1'' ''3'' 50 1))
      [rootStage, mkStage ''2'' 50] = None
   \<and> getNodeHeight [mkFlow ''f1'' ''1'' ''2'' 50 0, mkFlow ''f2'' ''1'' ''3'' 50 1] ''1'' = 808
   \<and> getNodeHeight [mkFlow ''f1'' ''1'' ''2'' 50 0] ''1'' = 400
   \<and> map_option path_fromY
        (renderFlow 1200 800 [rootStage, mkStage ''2'' 50]
           [mkFlow ''f1'' ''1'' ''2'' 50 0, mkFlow ''f2'' ''1'' ''3'' 50 1]
           (mkFlow ''f1'' ''1'' ''2'' 50 0)) = Some 196
   \<and> map_option path_fromY
        (renderFlow 1200 800 [rootStage, mkStage ''2'' 50]
           [mkFlow ''f1'' ''1'' ''2'' 50 0]
           (mkFlow ''f1'' ''1'' ''2'' 50 0)) = Some 400"
  by (simp add: renderFlow_def rootStage_def mkStage_def mkFlow_def Let_def
      getStageY_def getNodeHeight_def stackedHeight_def stackOffset_def
      HEIGHT_SCALE_def FLOW_SPACING_def upt_rec)

text \<open>
  The same holds with the hanging flow first in the stack of its source stage: its width
  and spacing are part of the offset of the sibling stacked after it.
\<close>

lemma hanging_flow_shifts_sibling:
  "map_option path_fromY
     (renderFlow 1200 800 [rootStage, mkStage ''2'' 50]
        [mkFlow ''f1'' ''1'' ''3'' 50 0, mkFlow ''f2'' ''1'' ''2'' 50 1]
        (mkFlow ''f2'' ''1'' ''2'' 50 1)) = Some 604"
  by (simp add: renderFlow_def rootStage_def mkStage_def mkFlow_def Let_def
      getStageY_def getNodeHeight_def stackedHeight_def stackOffset_def
      HEIGHT_SCALE_def FLOW_SPACING_def upt_rec)

text \<open>
  C8, amended. A flow whose target stage is not in the stages list gets no geometry of
  its own: the render loop returns nothing for it, whatever the stages and flows are, and
  the pass still yields one entry for each flow. The flow stays part of the layout of its
  source stage: when that stage has no incoming flow, its node height is the width of the
  hanging flow plus the width and the spacing of every other flow that leaves the stage.
\<close>

theorem hanging_flow_not_rendered:
  assumes "\<forall>s \<in> set stages. stage_id s \<noteq> toStageId fl"
  shows "renderFlow canvasWidth canvasHeight stages flows fl = None
     \<and> length (renderFlows canvasWidth canvasHeight stages flows) = length flows
     \<and> (\<forall>i < length flows. flows ! i = fl \<longrightarrow>
           renderFlows canvasWidth canvasHeight stages flows ! i = None)
     \<and> (fl \<in> set flows \<and> filter (\<lambda>f. toStageId f = fromStageId fl) flows = [] \<longrightarrow>
           getNodeHeight flows (fromStageId fl)
           = max 20 (flow_value fl * 8)
             + (\<Sum>f\<leftarrow>remove1 fl (filter (\<lambda>f. fromStageId f = fromStageId fl) flows).
                  max 20 (flow_value f * 8) + 8))"
proof -
  have "find (\<lambda>s. stage_id s = toStageId fl) stages = None"
    using assms by (simp add: find_None_iff)
  then have none: "renderFlow canvasWidth canvasHeight stages flows fl = None"
    by (simp add: renderFlow_def split: option.splits)
  have height: "getNodeHeight flows (fromStageId fl)
           = max 20 (flow_value fl * 8)
             + (\<Sum>f\<leftarrow>remove1 fl (filter (\<lambda>f. fromStageId f = fromStageId fl) flows).
                  max 20 (flow_value f * 8) + 8)"
    if mem: "fl \<in> set flows" and inc: "filter (\<lambda>f. toStageId f = fromStageId fl) flows = []"
  proof -
    let ?out = "filter (\<lambda>f. fromStageId f = fromStageId fl) flows"
    let ?w = "\<lambda>f. max 20 (flow_value f * 8)"
    have out: "fl \<in> set ?out"
      using mem by simp
    have ne: "?out \<noteq> []"
      using mem by (auto simp add: filter_empty_conv)
    have "getNodeHeight flows (fromStageId fl) = stackedHeight ?out"
      using inc ne by (simp add: getNodeHeight_def Let_def)
    also have "\<dots> = sum_list (map ?w ?out) + 8 * real (length ?out - 1)"
      by (rule stackedHeight_sum)
    also have "sum_list (map ?w ?out) = ?w fl + sum_list (map ?w (remove1 fl ?out))"
      using out by (rule sum_list_map_remove1)
    also have "length ?out - 1 = length (remove1 fl ?out)"
      using out by (simp add: length_remove1)
    also have "?w fl + sum_list (map ?w (remove1 fl ?out)) + 8 * real (length (remove1 fl ?out))
        = ?w fl + (\<Sum>f\<leftarrow>remove1 fl ?out. ?w f + 8)"
      by (simp add: sum_list_addf sum_list_triv)
    finally show ?thesis .
  qed
  show ?thesis
    using none height by (simp add: renderFlows_def)
qed

theorem hanging_flow_not_rendered_witness:
  "renderFlows 1200 800 [rootStage, mkStage ''2'' 50]
      [mkFlow ''f1'' ''1'' ''2'' 50 0, mkFlow ''f2'' ''1'' ''3'' 50 1] ! 1 = None
   \<and> length (renderFlows 1200 800 [rootStage, mkStage ''2'' 50]
      [mkFlow ''f1'' ''1'' ''2'' 50 0, mkFlow ''f2'' ''1'' ''3'' 50 1]) = 2
   \<and> getNodeHeight [mkFlow ''f1'' ''1'' ''2'' 50 0, mkFlow ''f2'' ''1'' ''3'' 50 1] ''1'' = 808"
  using hanging_flow_not_rendered [of "[rootStage, mkStage ''2'' 50]"
      "mkFlow ''f2'' ''1'' ''3'' 50 1" 1200 800
      "[mkFlow ''f1'' ''1'' ''2'' 50 0, mkFlow ''f2'' ''1'' ''3'' 50 1]"]
  by (simp add: rootStage_def mkStage_def mkFlow_def)

subsection \<open>Stage deletion\<close>

lemma unchanged_endpoints:
  assumes "list_all2 unchangedButValue fs gs"
    and "\<forall>f \<in> set fs. P (fromStageId f) (toStageId f)"
  shows "\<forall>g \<in> set gs. P (fromStageId g) (toStageId g)"
proof
  fix g
  assume "g \<in> set gs"
  then obtain i where i: "i < length gs" "gs ! i = g"
    by (auto simp add: in_set_conv_nth)
  then have "unchangedButValue (fs ! i) g" "fs ! i \<in> set fs"
    using assms(1) by (auto simp add: list_all2_conv_all_nth)
  then show "P (fromStageId g) (toStageId g)"
    using assms(2) by (auto simp add: unchangedButValue_def)
qed

lemma forOf_invariant:
  assumes "I s"
    and "\<And>x acc. x \<in> set xs \<Longrightarrow> I acc \<Longrightarrow> \<exists>acc'. body x acc = Some acc' \<and> I acc'"
  shows "\<exists>s'. forOf body xs s = Some s' \<and> I s'"
  using assms
proof (induction xs arbitrary: s)
  case Nil
  then show ?case by simp
next
  case (Cons x xs)
  obtain s1 where s1: "body x s = Some s1" "I s1"
    using Cons.prems by fastforce
  have "\<exists>s'. forOf body xs s1 = Some s' \<and> I s'"
    using Cons.IH [OF s1(2)] Cons.prems(2) by simp
  then show ?case
    using s1 by simp
qed

lemma map_value_frame:
  "list_all2 unchangedButValue fs (map (\<lambda>f. if Q f then f\<lparr>flow_value := v\<rparr> else f) fs)"
  by (simp add: list_all2_conv_all_nth unchangedButValue_refl unchangedButValue_update)

text \<open>
  Where a ranking of the stages falls along every flow, the recursion of
  \<^verbatim>\<open>recalculateSiblingFlowValues\<close> ends, by induction on the rank of the stage it starts
  from, and it returns the flows it was given with other values at most.
\<close>

lemma recalculate_returns:
  assumes "\<forall>f \<in> set fs. rk (toStageId f) < (rk (fromStageId f) :: nat)"
  shows "\<exists>fs'. recalculateSiblingFlowValues p fs = Some fs'
                \<and> list_all2 unchangedButValue fs fs'"
  using assms
proof (induction "rk p" arbitrary: p fs rule: less_induct)
  case less
  let ?sib = "filter (\<lambda>f. fromStageId f = p) fs"
  show ?case
  proof (cases "?sib = []")
    case True
    then show ?thesis
      by (subst recalculateSiblingFlowValues.simps) (simp add: list_all2_unchanged_refl)
  next
    case False
    define upd where "upd = map (\<lambda>f. if fromStageId f = p
         then f\<lparr>flow_value := getIncomingFlowValue p fs / real (length ?sib)\<rparr> else f) fs"
    have u: "list_all2 unchangedButValue fs upd"
      unfolding upd_def by (rule map_value_frame)
    have step: "\<exists>acc'. recalculateSiblingFlowValues (toStageId x) acc = Some acc'
                  \<and> list_all2 unchangedButValue fs acc'"
      if "x \<in> set ?sib" "list_all2 unchangedButValue fs acc" for x acc
    proof -
      have "rk (toStageId x) < rk p"
        using that(1) less.prems by auto
      moreover have "\<forall>f \<in> set acc. rk (toStageId f) < rk (fromStageId f)"
        using unchanged_endpoints [OF that(2), of "\<lambda>a b. rk b < rk a"] less.prems by simp
      ultimately obtain acc' where
        "recalculateSiblingFlowValues (toStageId x) acc = Some acc'"
        "list_all2 unchangedButValue acc acc'"
        using less.hyps by blast
      then show ?thesis
        using list_all2_unchanged_trans [OF that(2)] by blast
    qed
    have "\<exists>s'. forOf (\<lambda>siblingFlow. recalculateSiblingFlowValues (toStageId siblingFlow))
                  ?sib upd = Some s'
        \<and> list_all2 unchangedButValue fs s'"
      by (rule forOf_invariant [where I = "list_all2 unchangedButValue fs"])
         (use u step in auto)
    then show ?thesis
      using False unfolding upd_def
      by (subst recalculateSiblingFlowValues.simps) (simp add: Let_def)
  qed
qed

text \<open>
  On the cycle between the stages \<open>2\<close> and \<open>4\<close> the recursion never returns: a call that
  returned would rest on a call on the same cycle that returned before it.
\<close>

lemma recalculate_cycle_never_returns:
  assumes "recalculateSiblingFlowValues p fs = Some y"
  shows "\<not> ((p = ''2'' \<or> p = ''4'')
            \<and> (\<exists>r u v. fs = [mkFlow ''f1'' ''1'' ''2'' r 0, mkFlow ''f3'' ''2'' ''4'' u 1,
                              mkFlow ''f4'' ''4'' ''2'' v 0]))"
proof (rule recalculateSiblingFlowValues.raw_induct
    [where P = "\<lambda>p fs y. \<not> ((p = ''2'' \<or> p = ''4'')
            \<and> (\<exists>r u v. fs = [mkFlow ''f1'' ''1'' ''2'' r 0, mkFlow ''f3'' ''2'' ''4'' u 1,
                              mkFlow ''f4'' ''4'' ''2'' v 0]))", OF _ assms])
  fix recalc :: "string \<Rightarrow> flow list \<Rightarrow> flow list option" and p fs y
  assume IH: "\<And>p fs y. recalc p fs = Some y \<Longrightarrow>
     \<not> ((p = ''2'' \<or> p = ''4'')
            \<and> (\<exists>r u v. fs = [mkFlow ''f1'' ''1'' ''2'' r 0, mkFlow ''f3'' ''2'' ''4'' u 1,
                              mkFlow ''f4'' ''4'' ''2'' v 0]))"
  assume step: "(let siblingFlows = filter (\<lambda>f. fromStageId f = p) fs
      in if length siblingFlows = 0 then Some fs
         else
           (let incomingValue = getIncomingFlowValue p fs;
                proportionalValue = incomingValue / real (length siblingFlows);
                updatedFlows = map (\<lambda>f. if fromStageId f = p
                                          then f\<lparr>flow_value := proportionalValue\<rparr> else f) fs
            in forOf (\<lambda>siblingFlow acc. recalc (toStageId siblingFlow) acc)
                 siblingFlows updatedFlows)) = Some y"
  show "\<not> ((p = ''2'' \<or> p = ''4'')
            \<and> (\<exists>r u v. fs = [mkFlow ''f1'' ''1'' ''2'' r 0, mkFlow ''f3'' ''2'' ''4'' u 1,
                              mkFlow ''f4'' ''4'' ''2'' v 0]))"
  proof
    assume c: "(p = ''2'' \<or> p = ''4'')
            \<and> (\<exists>r u v. fs = [mkFlow ''f1'' ''1'' ''2'' r 0, mkFlow ''f3'' ''2'' ''4'' u 1,
                              mkFlow ''f4'' ''4'' ''2'' v 0])"
    then obtain r u v where fs: "fs = [mkFlow ''f1'' ''1'' ''2'' r 0,
        mkFlow ''f3'' ''2'' ''4'' u 1, mkFlow ''f4'' ''4'' ''2'' v 0]"
      by blast
    from c have "p = ''2'' \<or> p = ''4''"
      by simp
    then show False
    proof
      assume p: "p = ''2''"
      have "\<exists>z w. recalc ''4'' [mkFlow ''f1'' ''1'' ''2'' r 0,
                       mkFlow ''f3'' ''2'' ''4'' w 1, mkFlow ''f4'' ''4'' ''2'' v 0] = Some z"
        using step unfolding p fs
        by (auto simp add: mkFlow_def Let_def split: Option.bind_splits)
      then show False
        using IH by blast
    next
      assume p: "p = ''4''"
      have "\<exists>z w. recalc ''2'' [mkFlow ''f1'' ''1'' ''2'' r 0,
                       mkFlow ''f3'' ''2'' ''4'' u 1, mkFlow ''f4'' ''4'' ''2'' w 0] = Some z"
        using step unfolding p fs
        by (auto simp add: mkFlow_def Let_def split: Option.bind_splits)
      then show False
        using IH by blast
    qed
  qed
qed

text \<open>
  C5 as stated fails. The graph below arises in the editor: the root \<open>1\<close> branches to \<open>2\<close>,
  \<open>2\<close> branches to \<open>3\<close> and to \<open>4\<close>, stage \<open>4\<close> is dragged to the left of \<open>2\<close> and linked to
  it. Stage \<open>3\<close> has an incoming flow, and deleting it never returns: the recalculation
  from its parent \<open>2\<close> runs round the cycle between \<open>2\<close> and \<open>4\<close>.
\<close>

theorem delete_stage_cycle_counterexample:
  "filter (\<lambda>f. toStageId f = ''3'')
      [mkFlow ''f1'' ''1'' ''2'' 100 0, mkFlow ''f2'' ''2'' ''3'' 75 0,
       mkFlow ''f3'' ''2'' ''4'' 75 1, mkFlow ''f4'' ''4'' ''2'' 75 0] \<noteq> []
   \<and> handleStageDelete [rootStage, mkStage ''2'' 30, mkStage ''3'' 60, mkStage ''4'' 10]
      [mkFlow ''f1'' ''1'' ''2'' 100 0, mkFlow ''f2'' ''2'' ''3'' 75 0,
       mkFlow ''f3'' ''2'' ''4'' 75 1, mkFlow ''f4'' ''4'' ''2'' 75 0] ''3'' = None"
proof -
  have "recalculateSiblingFlowValues ''2'' [mkFlow ''f1'' ''1'' ''2'' 100 0,
          mkFlow ''f3'' ''2'' ''4'' 75 1, mkFlow ''f4'' ''4'' ''2'' 75 0] = None"
    using recalculate_cycle_never_returns [of "''2''" "[mkFlow ''f1'' ''1'' ''2'' 100 0,
          mkFlow ''f3'' ''2'' ''4'' 75 1, mkFlow ''f4'' ''4'' ''2'' 75 0]"]
    by (cases "recalculateSiblingFlowValues ''2'' [mkFlow ''f1'' ''1'' ''2'' 100 0,
          mkFlow ''f3'' ''2'' ''4'' 75 1, mkFlow ''f4'' ''4'' ''2'' 75 0]") auto
  then show ?thesis
    by (simp add: handleStageDelete_def mkFlow_def Let_def)
qed

text \<open>
  C5, amended. \<^verbatim>\<open>handleStageDelete\<close> on a stage with no incoming flow leaves the stages
  and the flows as they are, on every graph. On a stage with an incoming flow, in a graph
  whose flows are acyclic (some ranking of the stages falls along every flow), it returns:
  the stages are those of before whose id is not the deleted one, and the flows are those
  of before that do not touch the deleted stage, in their order, with other values at
  most.
\<close>

theorem delete_stage_root_protected_else_removed:
  "(filter (\<lambda>f. toStageId f = sid) flows = [] \<longrightarrow>
       handleStageDelete stages flows sid = Some (stages, flows))
   \<and> (filter (\<lambda>f. toStageId f = sid) flows \<noteq> []
        \<and> (\<forall>f \<in> set flows. rk (toStageId f) < (rk (fromStageId f) :: nat)) \<longrightarrow>
       (\<exists>flows'. handleStageDelete stages flows sid
                   = Some (filter (\<lambda>s. stage_id s \<noteq> sid) stages, flows')
          \<and> list_all2 unchangedButValue
               (filter (\<lambda>f. fromStageId f \<noteq> sid \<and> toStageId f \<noteq> sid) flows) flows'))"
proof (intro conjI impI)
  assume "filter (\<lambda>f. toStageId f = sid) flows = []"
  then show "handleStageDelete stages flows sid = Some (stages, flows)"
    by (simp add: handleStageDelete_def)
next
  assume a: "filter (\<lambda>f. toStageId f = sid) flows \<noteq> []
        \<and> (\<forall>f \<in> set flows. rk (toStageId f) < (rk (fromStageId f) :: nat))"
  let ?rest = "filter (\<lambda>f. fromStageId f \<noteq> sid \<and> toStageId f \<noteq> sid) flows"
  have "\<forall>f \<in> set ?rest. rk (toStageId f) < rk (fromStageId f)"
    using a by simp
  then have "\<exists>fs'. recalculateSiblingFlowValues p ?rest = Some fs'
                \<and> list_all2 unchangedButValue ?rest fs'" for p
    by (rule recalculate_returns)
  then show "\<exists>flows'. handleStageDelete stages flows sid
                   = Some (filter (\<lambda>s. stage_id s \<noteq> sid) stages, flows')
          \<and> list_all2 unchangedButValue ?rest flows'"
    using a
    by (auto simp add: handleStageDelete_def Let_def list_all2_unchanged_refl
        split: option.splits)
qed

text \<open>
  Scenario C of the specification: with the root's budget split 80 to 20 between the
  stages \<open>2\<close> and \<open>3\<close>, deleting \<open>2\<close> leaves the flow to \<open>3\<close> with the whole budget.
\<close>

lemma delete_stage_scenario_C:
  "handleStageDelete [rootStage, mkStage ''2'' 30, mkStage ''3'' 60]
      [mkFlow ''f1'' ''1'' ''2'' 80 0, mkFlow ''f2'' ''1'' ''3'' 20 1] ''2''
   = Some ([rootStage, mkStage ''3'' 60], [mkFlow ''f2'' ''1'' ''3'' 100 1])"
  apply (simp add: handleStageDelete_def mkFlow_def Let_def rootStage_def mkStage_def)
  apply (subst recalculateSiblingFlowValues.simps)
  apply (simp add: Let_def getIncomingFlowValue_def)
  apply (subst recalculateSiblingFlowValues.simps)
  apply (simp add: Let_def getIncomingFlowValue_def)
  done

theorem delete_stage_root_protected_else_removed_witness:
  "handleStageDelete [rootStage, mkStage ''2'' 30, mkStage ''3'' 60]
      [mkFlow ''f1'' ''1'' ''2'' 80 0, mkFlow ''f2'' ''1'' ''3'' 20 1] ''1''
     = Some ([rootStage, mkStage ''2'' 30, mkStage ''3'' 60],
             [mkFlow ''f1'' ''1'' ''2'' 80 0, mkFlow ''f2'' ''1'' ''3'' 20 1])
   \<and> (\<exists>flows'. handleStageDelete [rootStage, mkStage ''2'' 30, mkStage ''3'' 60]
          [mkFlow ''f1'' ''1'' ''2'' 80 0, mkFlow ''f2'' ''1'' ''3'' 20 1] ''2''
        = Some ([rootStage, mkStage ''3'' 60], flows')
        \<and> list_all2 unchangedButValue [mkFlow ''f2'' ''1'' ''3'' 20 1] flows')"
  using delete_stage_root_protected_else_removed
      [of "''1''" "[mkFlow ''f1'' ''1'' ''2'' 80 0, mkFlow ''f2'' ''1'' ''3'' 20 1]"
          "[rootStage, mkStage ''2'' 30, mkStage ''3'' 60]" "\<lambda>s. if s = ''1'' then 1 else 0"]
    delete_stage_root_protected_else_removed
      [of "''2''" "[mkFlow ''f1'' ''1'' ''2'' 80 0, mkFlow ''f2'' ''1'' ''3'' 20 1]"
          "[rootStage, mkStage ''2'' 30, mkStage ''3'' 60]" "\<lambda>s. if s = ''1'' then 1 else 0"]
  by (simp add: mkFlow_def mkStage_def rootStage_def)

subsection \<open>Rebalance on flows with distinct ids\<close>

text \<open>
  With pairwise distinct flow ids the lookup by id in \<^verbatim>\<open>balanceFlows\<close> finds the flow it
  started from, and the inner loop sets the value of exactly the outgoing flows of the
  stage.
\<close>

lemma sumValues_sum_list: "sumValues fs = sum_list (map flow_value fs)"
proof -
  have "foldl (\<lambda>sum f. sum + flow_value f) a fs = a + sum_list (map flow_value fs)" for a
    by (induction fs arbitrary: a) simp_all
  then show ?thesis by (simp add: sumValues_def)
qed

lemma setValueById_distinct:
  assumes "distinct (map flow_id fs)"
  shows "setValueById v fl fs = map (\<lambda>f. if flow_id f = flow_id fl then f\<lparr>flow_value := v\<rparr> else f) fs"
  using assms
proof (induction fs)
  case Nil
  show ?case by (simp add: setValueById_def)
next
  case (Cons a fs)
  show ?case
  proof (cases "flow_id a = flow_id fl")
    case True
    have "flow_id a \<notin> flow_id ` set fs" using Cons.prems by simp
    then have "\<forall>f \<in> set fs. flow_id f \<noteq> flow_id fl" using True by (metis imageI)
    then have "map (\<lambda>f. if flow_id f = flow_id fl then f\<lparr>flow_value := v\<rparr> else f) fs = fs"
      by (simp add: map_idI)
    then show ?thesis using True by (simp add: setValueById_def)
  next
    case False
    have "distinct (map flow_id fs)" using Cons.prems by simp
    from Cons.IH [OF this] show ?thesis using False
      by (simp add: setValueById_def split: option.splits)
  qed
qed

lemma fold_setValueById_distinct:
  assumes "distinct (map flow_id fs)"
  shows "fold (setValueById v) out fs
         = map (\<lambda>f. if flow_id f \<in> flow_id ` set out then f\<lparr>flow_value := v\<rparr> else f) fs"
  using assms
proof (induction out arbitrary: fs)
  case Nil
  show ?case by simp
next
  case (Cons a out)
  let ?fs1 = "map (\<lambda>f. if flow_id f = flow_id a then f\<lparr>flow_value := v\<rparr> else f) fs"
  have m: "map flow_id ?fs1 = map flow_id fs" by (induction fs) auto
  have d: "distinct (map flow_id ?fs1)" unfolding m using Cons.prems .
  have "fold (setValueById v) (a # out) fs = fold (setValueById v) out ?fs1"
    using setValueById_distinct [OF Cons.prems] by simp
  also have "\<dots> = map (\<lambda>f. if flow_id f \<in> flow_id ` set out then f\<lparr>flow_value := v\<rparr> else f) ?fs1"
    by (rule Cons.IH [OF d])
  also have "\<dots> = map (\<lambda>f. if flow_id f \<in> flow_id ` set (a # out) then f\<lparr>flow_value := v\<rparr> else f) fs"
    by (induction fs) auto
  finally show ?case .
qed

lemma balanceStage_distinct:
  assumes "distinct (map flow_id fs)"
  shows "balanceStage st fs =
     (if filter (\<lambda>f. fromStageId f = stage_id st) fs \<noteq> []
         \<and> \<bar>outgoingSum (stage_id st) fs - getIncomingFlowValue (stage_id st) fs\<bar> > 1 / 100
      then map (\<lambda>f. if fromStageId f = stage_id st
                     then f\<lparr>flow_value := getIncomingFlowValue (stage_id st) fs
                            / real (length (filter (\<lambda>f. fromStageId f = stage_id st) fs))\<rparr>
                     else f) fs
      else fs)"
proof -
  have inj: "inj_on flow_id (set fs)" using assms by (simp add: distinct_map)
  have "(flow_id f \<in> flow_id ` set (filter (\<lambda>f. fromStageId f = stage_id st) fs))
        = (fromStageId f = stage_id st)" if "f \<in> set fs" for f
    using that inj by (auto simp add: inj_on_def)
  then have "map (\<lambda>f. if flow_id f \<in> flow_id ` set (filter (\<lambda>f. fromStageId f = stage_id st) fs)
                       then f\<lparr>flow_value := v\<rparr> else f) fs
           = map (\<lambda>f. if fromStageId f = stage_id st then f\<lparr>flow_value := v\<rparr> else f) fs" for v
    by (intro map_cong) auto
  then show ?thesis
    by (simp add: balanceStage_def Let_def outgoingSum_def fold_setValueById_distinct [OF assms])
qed

lemma balanceFlows_Nil: "balanceFlows [] fs = fs"
  by (simp add: balanceFlows_def)

lemma balanceFlows_Cons: "balanceFlows (s # ss) fs = balanceFlows ss (balanceStage s fs)"
  by (simp add: balanceFlows_def)

lemma balanceStage_fixed: "balancedAt (stage_id st) fs \<Longrightarrow> balanceStage st fs = fs"
  by (auto simp add: balancedAt_def balanceStage_def outgoingSum_def Let_def)

lemma balanceFlows_fixed:
  "\<forall>s \<in> set ss. balancedAt (stage_id s) fs \<Longrightarrow> balanceFlows ss fs = fs"
  by (induction ss) (simp_all add: balanceFlows_Nil balanceFlows_Cons balanceStage_fixed)

lemma unchanged_ids: "list_all2 unchangedButValue fs gs \<Longrightarrow> map flow_id gs = map flow_id fs"
  by (induction fs gs rule: list_all2_induct) (simp_all add: unchangedButValue_def)

lemma filter_from_map_value:
  "filter (\<lambda>f. fromStageId f = s) (map (\<lambda>f. if fromStageId f = t then f\<lparr>flow_value := v\<rparr> else f) fs)
   = (if s = t then map (\<lambda>f. f\<lparr>flow_value := v\<rparr>) (filter (\<lambda>f. fromStageId f = s) fs)
      else filter (\<lambda>f. fromStageId f = s) fs)"
  by (induction fs) auto

lemma filter_to_map_value:
  "\<forall>f \<in> set fs. toStageId f = s \<longrightarrow> fromStageId f \<noteq> t \<Longrightarrow>
   filter (\<lambda>f. toStageId f = s) (map (\<lambda>f. if fromStageId f = t then f\<lparr>flow_value := v\<rparr> else f) fs)
   = filter (\<lambda>f. toStageId f = s) fs"
  by (induction fs) auto

lemma sumValues_const: "sumValues (map (\<lambda>f. f\<lparr>flow_value := v\<rparr>) fs) = real (length fs) * v"
  by (induction fs) (simp_all add: sumValues_sum_list algebra_simps)

lemma incoming_map_value:
  "\<forall>f \<in> set fs. toStageId f = s \<longrightarrow> fromStageId f \<noteq> t \<Longrightarrow>
   getIncomingFlowValue s (map (\<lambda>f. if fromStageId f = t then f\<lparr>flow_value := v\<rparr> else f) fs)
   = getIncomingFlowValue s fs"
  by (simp add: getIncomingFlowValue_def filter_to_map_value)

lemma step_makes_balanced:
  assumes "distinct (map flow_id fs)"
    and "\<forall>f \<in> set fs. toStageId f = stage_id st \<longrightarrow> fromStageId f \<noteq> stage_id st"
  shows "balancedAt (stage_id st) (balanceStage st fs)"
proof (cases "balancedAt (stage_id st) fs")
  case True
  then show ?thesis by (simp add: balanceStage_fixed)
next
  case False
  let ?out = "filter (\<lambda>f. fromStageId f = stage_id st) fs"
  have ne: "?out \<noteq> []" using False by (auto simp add: balancedAt_def)
  then have k: "real (length ?out) \<noteq> 0" by simp
  have "balanceStage st fs = map (\<lambda>f. if fromStageId f = stage_id st
                     then f\<lparr>flow_value := getIncomingFlowValue (stage_id st) fs / real (length ?out)\<rparr>
                     else f) fs"
    using False ne by (simp add: balanceStage_distinct [OF assms(1)] balancedAt_def)
  then show ?thesis
    using k by (simp add: balancedAt_def outgoingSum_def filter_from_map_value sumValues_const
        incoming_map_value [OF assms(2)])
qed

lemma step_keeps_balanced:
  assumes "distinct (map flow_id fs)"
    and "balancedAt s fs"
    and "\<forall>f \<in> set fs. toStageId f = s \<longrightarrow> fromStageId f \<noteq> stage_id t"
  shows "balancedAt s (balanceStage t fs)"
proof (cases "stage_id t = s")
  case True
  then show ?thesis using assms(2) by (simp add: balanceStage_fixed)
next
  case False
  show ?thesis
  proof (cases "balancedAt (stage_id t) fs")
    case True
    then show ?thesis using assms(2) by (simp add: balanceStage_fixed)
  next
    case unb: False
    let ?out = "filter (\<lambda>f. fromStageId f = stage_id t) fs"
    have "balanceStage t fs = map (\<lambda>f. if fromStageId f = stage_id t
                     then f\<lparr>flow_value := getIncomingFlowValue (stage_id t) fs / real (length ?out)\<rparr>
                     else f) fs"
      using unb by (auto simp add: balanceStage_distinct [OF assms(1)] balancedAt_def)
    then show ?thesis
      using assms(2) False
      by (simp add: balancedAt_def outgoingSum_def filter_from_map_value
          incoming_map_value [OF assms(3)])
  qed
qed

lemma balanceFlows_keeps_balanced:
  assumes "distinct (map flow_id fs)"
    and "balancedAt s fs"
    and "\<forall>f \<in> set fs. toStageId f = s \<longrightarrow> fromStageId f \<notin> stage_id ` set ts"
  shows "balancedAt s (balanceFlows ts fs)"
  using assms
proof (induction ts arbitrary: fs)
  case Nil
  then show ?case by (simp add: balanceFlows_Nil)
next
  case (Cons t ts)
  let ?fs1 = "balanceStage t fs"
  have fr: "list_all2 unchangedButValue fs ?fs1" by (rule balanceStage_frame)
  have d: "distinct (map flow_id ?fs1)"
    using unchanged_ids [OF fr] Cons.prems(1) by simp
  have b: "balancedAt s ?fs1"
    using step_keeps_balanced [OF Cons.prems(1,2)] Cons.prems(3) by simp
  have e: "\<forall>f \<in> set ?fs1. toStageId f = s \<longrightarrow> fromStageId f \<notin> stage_id ` set ts"
    using unchanged_endpoints [OF fr, of "\<lambda>a b. b = s \<longrightarrow> a \<notin> stage_id ` set ts"] Cons.prems(3)
    by simp
  show ?case
    using Cons.IH [OF d b e] by (simp add: balanceFlows_Cons)
qed

lemma topoOrdered_unchanged:
  "list_all2 unchangedButValue fs gs \<Longrightarrow> topoOrdered ss fs \<Longrightarrow> topoOrdered ss gs"
proof (induction ss)
  case Nil
  show ?case by simp
next
  case (Cons s ss)
  have "\<forall>g \<in> set gs. toStageId g = s \<longrightarrow> fromStageId g \<notin> set (s # ss)"
    using unchanged_endpoints [OF Cons.prems(1), of "\<lambda>a b. b = s \<longrightarrow> a \<notin> set (s # ss)"]
      Cons.prems(2) by simp
  then show ?case using Cons by simp
qed

lemma balanceFlows_all_balanced:
  assumes "distinct (map flow_id fs)" and "topoOrdered (map stage_id ss) fs"
  shows "\<forall>s \<in> set ss. balancedAt (stage_id s) (balanceFlows ss fs)"
  using assms
proof (induction ss arbitrary: fs)
  case Nil
  show ?case by simp
next
  case (Cons t ts)
  let ?fs1 = "balanceStage t fs"
  have fr: "list_all2 unchangedButValue fs ?fs1" by (rule balanceStage_frame)
  have d: "distinct (map flow_id ?fs1)"
    using unchanged_ids [OF fr] Cons.prems(1) by simp
  have tp: "topoOrdered (map stage_id (t # ts)) ?fs1"
    using topoOrdered_unchanged [OF fr Cons.prems(2)] .
  have rest: "\<forall>s \<in> set ts. balancedAt (stage_id s) (balanceFlows ts ?fs1)"
    using Cons.IH [OF d] tp by simp
  have "balancedAt (stage_id t) ?fs1"
    using step_makes_balanced [OF Cons.prems(1)] Cons.prems(2) by simp
  moreover have "\<forall>f \<in> set ?fs1. toStageId f = stage_id t \<longrightarrow> fromStageId f \<notin> stage_id ` set ts"
    using tp by simp
  ultimately have "balancedAt (stage_id t) (balanceFlows ts ?fs1)"
    using balanceFlows_keeps_balanced [OF d] by blast
  then show ?case using rest by (simp add: balanceFlows_Cons)
qed

subsection \<open>Evaluation of the scenarios\<close>

lemma string_of_nat_numerals:
  "string_of_nat 1 = ''1''" "string_of_nat 2 = ''2''" "string_of_nat 3 = ''3''"
  by code_simp+

lemma string_of_nat_Suc:
  "string_of_nat (Suc 0) = ''1''" "string_of_nat (Suc (Suc 0)) = ''2''"
  "string_of_nat (Suc (Suc (Suc 0))) = ''3''"
  using string_of_nat_numerals by (simp_all add: numeral_2_eq_2 numeral_3_eq_3)

lemma createdFlow_sel:
  "flow_id (createdFlow i n src dst v b) = i"
  "fromStageId (createdFlow i n src dst v b) = src"
  "toStageId (createdFlow i n src dst v b) = dst"
  "flow_value (createdFlow i n src dst v b) = v"
  "(createdFlow i n src dst v b)\<lparr>flow_value := w\<rparr> = createdFlow i n src dst w b"
  by (simp_all add: createdFlow_def)

lemma mkFlow_sel:
  "flow_id (mkFlow i src dst v b) = i"
  "fromStageId (mkFlow i src dst v b) = src"
  "toStageId (mkFlow i src dst v b) = dst"
  "flow_value (mkFlow i src dst v b) = v"
  "(mkFlow i src dst v b)\<lparr>flow_value := w\<rparr> = mkFlow i src dst w b"
  by (simp_all add: mkFlow_def)

lemma stage_sel: "stage_id (mkStage i p) = i" "stage_color (mkStage i p) = None"
  "stage_id rootStage = ''1''"
  by (simp_all add: mkStage_def rootStage_def)

lemmas eval_simps = createdFlow_sel mkFlow_sel stage_sel getIncomingFlowValue_def outgoingSum_def
  sumValues_def Let_def

lemma createFlow_eval:
  "createFlowWithProportionalSplit flows now fromId toId existing None
   = map (\<lambda>f. if fromStageId f = fromId
                  then f\<lparr>flow_value := getIncomingFlowValue fromId flows
                         / real (length (filter (\<lambda>f. fromStageId f = fromId) existing) + 1)\<rparr>
                  else f) existing
     @ [createdFlow now (string_of_nat (length existing + 1)) fromId toId
         (getIncomingFlowValue fromId flows
                         / real (length (filter (\<lambda>f. fromStageId f = fromId) existing) + 1))
         (length (filter (\<lambda>f. fromStageId f = fromId) existing))]"
  by (simp add: createFlowWithProportionalSplit_def Let_def createdFlow_def colorOrDefault_def)

lemma branch_step1: "createStageAndFlow [rootStage] [] ''f1'' ''1'' (mkStage ''2'' 30)
   = ([rootStage, mkStage ''2'' 30], [createdFlow ''f1'' ''1'' ''1'' ''2'' 100 0])"
proof -
  have c: "createFlowWithProportionalSplit [] ''f1'' ''1'' ''2'' [] None
            = [createdFlow ''f1'' ''1'' ''1'' ''2'' 100 0]"
    by (simp add: createFlow_eval string_of_nat_Suc eval_simps)
  have b: "balanceStage rootStage [createdFlow ''f1'' ''1'' ''1'' ''2'' 100 0]
           = [createdFlow ''f1'' ''1'' ''1'' ''2'' 100 0]"
    by (subst balanceStage_distinct) (simp_all add: eval_simps)
  show ?thesis
    by (simp only: createStageAndFlow_def Let_def stage_sel c balanceFlows_Nil balanceFlows_Cons b append.simps)
qed

lemma branch_step2: "createStageAndFlow [rootStage, mkStage ''2'' 30] [createdFlow ''f1'' ''1'' ''1'' ''2'' 100 0]
      ''f2'' ''1'' (mkStage ''3'' 30)
   = ([rootStage, mkStage ''2'' 30, mkStage ''3'' 30],
      [createdFlow ''f1'' ''1'' ''1'' ''2'' 50 0, createdFlow ''f2'' ''2'' ''1'' ''3'' 50 (Suc 0)])"
proof -
  let ?fs = "[createdFlow ''f1'' ''1'' ''1'' ''2'' 50 0, createdFlow ''f2'' ''2'' ''1'' ''3'' 50 (Suc 0)]"
  have c: "createFlowWithProportionalSplit [createdFlow ''f1'' ''1'' ''1'' ''2'' 100 0] ''f2'' ''1'' ''3''
             [createdFlow ''f1'' ''1'' ''1'' ''2'' 100 0] None = ?fs"
    by (simp add: createFlow_eval string_of_nat_Suc eval_simps)
  have b1: "balanceStage rootStage ?fs = ?fs"
    by (subst balanceStage_distinct) (simp_all add: eval_simps)
  have b2: "balanceStage (mkStage ''2'' 30) ?fs = ?fs"
    by (subst balanceStage_distinct) (simp_all add: eval_simps)
  show ?thesis
    by (simp only: createStageAndFlow_def Let_def stage_sel c balanceFlows_Nil balanceFlows_Cons b1 b2 append.simps)
qed

lemma branch_step3: "createStageAndFlow [rootStage, mkStage ''2'' 30, mkStage ''3'' 30]
     [createdFlow ''f1'' ''1'' ''1'' ''2'' 50 0, createdFlow ''f2'' ''2'' ''1'' ''3'' 50 (Suc 0)]
     ''f3'' ''1'' (mkStage ''4'' 30)
   = ([rootStage, mkStage ''2'' 30, mkStage ''3'' 30, mkStage ''4'' 30],
      [createdFlow ''f1'' ''1'' ''1'' ''2'' (100 / 3) 0, createdFlow ''f2'' ''2'' ''1'' ''3'' (100 / 3) (Suc 0),
       createdFlow ''f3'' ''3'' ''1'' ''4'' (100 / 3) 2])"
proof -
  let ?fs = "[createdFlow ''f1'' ''1'' ''1'' ''2'' (100 / 3) 0, createdFlow ''f2'' ''2'' ''1'' ''3'' (100 / 3) (Suc 0),
       createdFlow ''f3'' ''3'' ''1'' ''4'' (100 / 3) 2]"
  have c: "createFlowWithProportionalSplit
            [createdFlow ''f1'' ''1'' ''1'' ''2'' 50 0, createdFlow ''f2'' ''2'' ''1'' ''3'' 50 (Suc 0)] ''f3'' ''1'' ''4''
            [createdFlow ''f1'' ''1'' ''1'' ''2'' 50 0, createdFlow ''f2'' ''2'' ''1'' ''3'' 50 (Suc 0)] None = ?fs"
    by (simp add: createFlow_eval string_of_nat_Suc eval_simps numeral_2_eq_2)
  have b1: "balanceStage rootStage ?fs = ?fs"
    by (subst balanceStage_distinct) (simp_all add: eval_simps)
  have b2: "balanceStage (mkStage ''2'' 30) ?fs = ?fs"
    by (subst balanceStage_distinct) (simp_all add: eval_simps)
  have b3: "balanceStage (mkStage ''3'' 30) ?fs = ?fs"
    by (subst balanceStage_distinct) (simp_all add: eval_simps)
  show ?thesis
    by (simp only: createStageAndFlow_def Let_def stage_sel c balanceFlows_Nil balanceFlows_Cons b1 b2 b3 append.simps)
qed

lemma threeBranches_eq: "threeBranches = ([rootStage, mkStage ''2'' 30, mkStage ''3'' 30, mkStage ''4'' 30],
      [createdFlow ''f1'' ''1'' ''1'' ''2'' (100 / 3) 0, createdFlow ''f2'' ''2'' ''1'' ''3'' (100 / 3) (Suc 0),
       createdFlow ''f3'' ''3'' ''1'' ''4'' (100 / 3) 2])"
  by (simp only: threeBranches_def branch_step1 branch_step2 branch_step3 Let_def prod.case)

lemma edit_to_full: "handleFlowUpdate [rootStage, mkStage ''2'' 30, mkStage ''3'' 30, mkStage ''4'' 30]
      [createdFlow ''f1'' ''1'' ''1'' ''2'' (100 / 3) 0, createdFlow ''f2'' ''2'' ''1'' ''3'' (100 / 3) (Suc 0),
       createdFlow ''f3'' ''3'' ''1'' ''4'' (100 / 3) 2] (Some (createdFlow ''f1'' ''1'' ''1'' ''2'' 100 0))
   = Inr [createdFlow ''f1'' ''1'' ''1'' ''2'' 100 0, createdFlow ''f2'' ''2'' ''1'' ''3'' (100 / 3) (Suc 0),
       createdFlow ''f3'' ''3'' ''1'' ''4'' (100 / 3) 2]"
proof -
  let ?fs1 = "[createdFlow ''f1'' ''1'' ''1'' ''2'' 100 0, createdFlow ''f2'' ''2'' ''1'' ''3'' (1 / 100) (Suc 0),
       createdFlow ''f3'' ''3'' ''1'' ''4'' (1 / 100) 2]"
  let ?fs2 = "[createdFlow ''f1'' ''1'' ''1'' ''2'' (100 / 3) 0, createdFlow ''f2'' ''2'' ''1'' ''3'' (100 / 3) (Suc 0),
       createdFlow ''f3'' ''3'' ''1'' ''4'' (100 / 3) 2]"
  have b1: "balanceStage rootStage ?fs1 = ?fs2"
    by (subst balanceStage_distinct) (simp_all add: eval_simps)
  have b2: "balanceStage (mkStage ''2'' 30) ?fs2 = ?fs2"
    by (subst balanceStage_distinct) (simp_all add: eval_simps)
  have b3: "balanceStage (mkStage ''3'' 30) ?fs2 = ?fs2"
    by (subst balanceStage_distinct) (simp_all add: eval_simps)
  have b4: "balanceStage (mkStage ''4'' 30) ?fs2 = ?fs2"
    by (subst balanceStage_distinct) (simp_all add: eval_simps)
  have b: "balanceFlows [rootStage, mkStage ''2'' 30, mkStage ''3'' 30, mkStage ''4'' 30] ?fs1 = ?fs2"
    by (simp only: balanceFlows_Nil balanceFlows_Cons b1 b2 b3 b4)
  show ?thesis
    unfolding handleFlowUpdate_def
    by (simp add: eval_simps b)
qed

lemma edit_to_zero:
  "handleFlowUpdate [rootStage, mkStage ''2'' 30, mkStage ''3'' 30]
      [createdFlow ''f1'' ''1'' ''1'' ''2'' 50 0, createdFlow ''f2'' ''2'' ''1'' ''3'' 50 (Suc 0)]
      (Some (createdFlow ''f1'' ''1'' ''1'' ''2'' 0 0))
   = Inr [createdFlow ''f1'' ''1'' ''1'' ''2'' 0 0, createdFlow ''f2'' ''2'' ''1'' ''3'' 100 (Suc 0)]"
proof -
  let ?fs = "[createdFlow ''f1'' ''1'' ''1'' ''2'' 0 0, createdFlow ''f2'' ''2'' ''1'' ''3'' 100 (Suc 0)]"
  have b1: "balanceStage rootStage ?fs = ?fs"
    by (subst balanceStage_distinct) (simp_all add: eval_simps)
  have b2: "balanceStage (mkStage ''2'' 30) ?fs = ?fs"
    by (subst balanceStage_distinct) (simp_all add: eval_simps)
  have b3: "balanceStage (mkStage ''3'' 30) ?fs = ?fs"
    by (subst balanceStage_distinct) (simp_all add: eval_simps)
  have b: "balanceFlows [rootStage, mkStage ''2'' 30, mkStage ''3'' 30] ?fs = ?fs"
    by (simp only: balanceFlows_Nil balanceFlows_Cons b1 b2 b3)
  show ?thesis
    unfolding handleFlowUpdate_def by (simp add: eval_simps b)
qed

lemma edit_divides_by_zero:
  "handleFlowUpdate [rootStage, mkStage ''2'' 30, mkStage ''3'' 30]
      [createdFlow ''f1'' ''1'' ''1'' ''2'' 0 0, createdFlow ''f2'' ''2'' ''1'' ''3'' 100 (Suc 0)]
      (Some (createdFlow ''f2'' ''2'' ''1'' ''3'' 50 (Suc 0)))
   = Inl DivisionByZero"
  unfolding handleFlowUpdate_def by (simp add: eval_simps)

lemma rebalance_twice:
  "balanceFlows [rootStage, mkStage ''2'' 60, mkStage ''3'' 90, mkStage ''4'' 30]
     [mkFlow ''f1'' ''1'' ''2'' (100 / 3) 0, mkFlow ''f2'' ''2'' ''3'' 100 0,
      mkFlow ''f3'' ''1'' ''4'' (100 / 3) 1, mkFlow ''f4'' ''4'' ''2'' 50 0,
      mkFlow ''f5'' ''1'' ''5'' (100 / 3) 2]
   = [mkFlow ''f1'' ''1'' ''2'' (100 / 3) 0, mkFlow ''f2'' ''2'' ''3'' (250 / 3) 0,
      mkFlow ''f3'' ''1'' ''4'' (100 / 3) 1, mkFlow ''f4'' ''4'' ''2'' (100 / 3) 0,
      mkFlow ''f5'' ''1'' ''5'' (100 / 3) 2]"
  "balanceFlows [rootStage, mkStage ''2'' 60, mkStage ''3'' 90, mkStage ''4'' 30]
     [mkFlow ''f1'' ''1'' ''2'' (100 / 3) 0, mkFlow ''f2'' ''2'' ''3'' (250 / 3) 0,
      mkFlow ''f3'' ''1'' ''4'' (100 / 3) 1, mkFlow ''f4'' ''4'' ''2'' (100 / 3) 0,
      mkFlow ''f5'' ''1'' ''5'' (100 / 3) 2]
   = [mkFlow ''f1'' ''1'' ''2'' (100 / 3) 0, mkFlow ''f2'' ''2'' ''3'' (200 / 3) 0,
      mkFlow ''f3'' ''1'' ''4'' (100 / 3) 1, mkFlow ''f4'' ''4'' ''2'' (100 / 3) 0,
      mkFlow ''f5'' ''1'' ''5'' (100 / 3) 2]"
proof -
  let ?g0 = "[mkFlow ''f1'' ''1'' ''2'' (100 / 3) 0, mkFlow ''f2'' ''2'' ''3'' 100 0,
      mkFlow ''f3'' ''1'' ''4'' (100 / 3) 1, mkFlow ''f4'' ''4'' ''2'' 50 0,
      mkFlow ''f5'' ''1'' ''5'' (100 / 3) 2]"
  let ?g0a = "[mkFlow ''f1'' ''1'' ''2'' (100 / 3) 0, mkFlow ''f2'' ''2'' ''3'' (250 / 3) 0,
      mkFlow ''f3'' ''1'' ''4'' (100 / 3) 1, mkFlow ''f4'' ''4'' ''2'' 50 0,
      mkFlow ''f5'' ''1'' ''5'' (100 / 3) 2]"
  let ?g1 = "[mkFlow ''f1'' ''1'' ''2'' (100 / 3) 0, mkFlow ''f2'' ''2'' ''3'' (250 / 3) 0,
      mkFlow ''f3'' ''1'' ''4'' (100 / 3) 1, mkFlow ''f4'' ''4'' ''2'' (100 / 3) 0,
      mkFlow ''f5'' ''1'' ''5'' (100 / 3) 2]"
  let ?g2 = "[mkFlow ''f1'' ''1'' ''2'' (100 / 3) 0, mkFlow ''f2'' ''2'' ''3'' (200 / 3) 0,
      mkFlow ''f3'' ''1'' ''4'' (100 / 3) 1, mkFlow ''f4'' ''4'' ''2'' (100 / 3) 0,
      mkFlow ''f5'' ''1'' ''5'' (100 / 3) 2]"
  have a1: "balanceStage rootStage ?g0 = ?g0"
    by (subst balanceStage_distinct) (simp_all add: eval_simps)
  have a2: "balanceStage (mkStage ''2'' 60) ?g0 = ?g0a"
    by (subst balanceStage_distinct) (simp_all add: eval_simps)
  have a3: "balanceStage (mkStage ''3'' 90) ?g0a = ?g0a"
    by (subst balanceStage_distinct) (simp_all add: eval_simps)
  have a4: "balanceStage (mkStage ''4'' 30) ?g0a = ?g1"
    by (subst balanceStage_distinct) (simp_all add: eval_simps)
  show "balanceFlows [rootStage, mkStage ''2'' 60, mkStage ''3'' 90, mkStage ''4'' 30] ?g0 = ?g1"
    by (simp only: balanceFlows_Nil balanceFlows_Cons a1 a2 a3 a4)
  have c1: "balanceStage rootStage ?g1 = ?g1"
    by (subst balanceStage_distinct) (simp_all add: eval_simps)
  have c2: "balanceStage (mkStage ''2'' 60) ?g1 = ?g2"
    by (subst balanceStage_distinct) (simp_all add: eval_simps)
  have c3: "balanceStage (mkStage ''3'' 90) ?g2 = ?g2"
    by (subst balanceStage_distinct) (simp_all add: eval_simps)
  have c4: "balanceStage (mkStage ''4'' 30) ?g2 = ?g2"
    by (subst balanceStage_distinct) (simp_all add: eval_simps)
  show "balanceFlows [rootStage, mkStage ''2'' 60, mkStage ''3'' 90, mkStage ''4'' 30] ?g1 = ?g2"
    by (simp only: balanceFlows_Nil balanceFlows_Cons c1 c2 c3 c4)
qed

subsection \<open>Idempotence of rebalance\<close>

text \<open>
  Where the pass reaches its goal: for flows with pairwise distinct ids and a stages list
  in topological order for them (no flow enters a stage from that stage or from a stage
  later in the list), one pass of \<^verbatim>\<open>balanceFlows\<close> leaves every listed stage balanced, and
  a second pass returns the result of the first unchanged.
\<close>

lemma balanceFlows_idempotent_on_ordered:
  assumes "distinct (map flow_id fs)" and "topoOrdered (map stage_id ss) fs"
  shows "balanceFlows ss (balanceFlows ss fs) = balanceFlows ss fs"
  using balanceFlows_fixed [OF balanceFlows_all_balanced [OF assms]] .

text \<open>
  The distinctness of the flow ids matters: with two flows of one id the lookup by id
  rewrites the wrong flow, and a second pass moves the values again although the stages
  list is in topological order.
\<close>

lemma rebalance_duplicate_ids_example:
  "balanceFlows [rootStage]
     [mkFlow ''a'' ''0'' ''1'' 100 0, mkFlow ''a'' ''1'' ''2'' 10 0, mkFlow ''b'' ''1'' ''3'' 10 1]
   = [mkFlow ''a'' ''0'' ''1'' 50 0, mkFlow ''a'' ''1'' ''2'' 10 0, mkFlow ''b'' ''1'' ''3'' 50 1]"
  "balanceFlows [rootStage]
     [mkFlow ''a'' ''0'' ''1'' 50 0, mkFlow ''a'' ''1'' ''2'' 10 0, mkFlow ''b'' ''1'' ''3'' 50 1]
   = [mkFlow ''a'' ''0'' ''1'' 25 0, mkFlow ''a'' ''1'' ''2'' 10 0, mkFlow ''b'' ''1'' ''3'' 25 1]"
  by (simp_all add: balanceFlows_def balanceStage_def setValueById_def eval_simps)

text \<open>
  C2. The claim is that a second pass of \<^verbatim>\<open>balanceFlows\<close> changes no flow value by more
  than 0.01, for every graph. The code does not do that. The graph below is the argument
  of \<^verbatim>\<open>balanceFlows\<close> in \<^verbatim>\<open>handleCanvasClick\<close> when a fifth stage is branched from the root
  of a graph in which stage \<open>4\<close>, created after stage \<open>2\<close>, has been linked to it: the
  stages list has \<open>2\<close> before \<open>4\<close>, and the flow ids are distinct. The single pass balances
  stage \<open>2\<close> against its incoming value 250/3 and only then lowers the flow from \<open>4\<close> into
  \<open>2\<close> from 50 to 100/3. It returns a graph in which stage \<open>2\<close> takes in 200/3 and sends out
  250/3, against the comment of the function (ensure all flows are balanced), and a
  second pass moves the flow from \<open>2\<close> to \<open>3\<close> from 250/3 to 200/3.
\<close>

theorem rebalance_one_pass_leaves_stage_unbalanced:
  "balanceFlows [rootStage, mkStage ''2'' 60, mkStage ''3'' 90, mkStage ''4'' 30]
        [mkFlow ''f1'' ''1'' ''2'' (100 / 3) 0, mkFlow ''f2'' ''2'' ''3'' 100 0,
         mkFlow ''f3'' ''1'' ''4'' (100 / 3) 1, mkFlow ''f4'' ''4'' ''2'' 50 0,
         mkFlow ''f5'' ''1'' ''5'' (100 / 3) 2]
     = [mkFlow ''f1'' ''1'' ''2'' (100 / 3) 0, mkFlow ''f2'' ''2'' ''3'' (250 / 3) 0,
        mkFlow ''f3'' ''1'' ''4'' (100 / 3) 1, mkFlow ''f4'' ''4'' ''2'' (100 / 3) 0,
        mkFlow ''f5'' ''1'' ''5'' (100 / 3) 2]
   \<and> getIncomingFlowValue ''2''
        [mkFlow ''f1'' ''1'' ''2'' (100 / 3) 0, mkFlow ''f2'' ''2'' ''3'' (250 / 3) 0,
         mkFlow ''f3'' ''1'' ''4'' (100 / 3) 1, mkFlow ''f4'' ''4'' ''2'' (100 / 3) 0,
         mkFlow ''f5'' ''1'' ''5'' (100 / 3) 2] = 200 / 3
   \<and> outgoingSum ''2''
        [mkFlow ''f1'' ''1'' ''2'' (100 / 3) 0, mkFlow ''f2'' ''2'' ''3'' (250 / 3) 0,
         mkFlow ''f3'' ''1'' ''4'' (100 / 3) 1, mkFlow ''f4'' ''4'' ''2'' (100 / 3) 0,
         mkFlow ''f5'' ''1'' ''5'' (100 / 3) 2] = 250 / 3
   \<and> map flow_value
     (balanceFlows [rootStage, mkStage ''2'' 60, mkStage ''3'' 90, mkStage ''4'' 30]
       (balanceFlows [rootStage, mkStage ''2'' 60, mkStage ''3'' 90, mkStage ''4'' 30]
        [mkFlow ''f1'' ''1'' ''2'' (100 / 3) 0, mkFlow ''f2'' ''2'' ''3'' 100 0,
         mkFlow ''f3'' ''1'' ''4'' (100 / 3) 1, mkFlow ''f4'' ''4'' ''2'' 50 0,
         mkFlow ''f5'' ''1'' ''5'' (100 / 3) 2]))
     = [100 / 3, 200 / 3, 100 / 3, 100 / 3, 100 / 3]
   \<and> \<bar>(200 / 3 :: real) - 250 / 3\<bar> > 1 / 100
   \<and> distinct (map flow_id
        [mkFlow ''f1'' ''1'' ''2'' (100 / 3) 0, mkFlow ''f2'' ''2'' ''3'' 100 0,
         mkFlow ''f3'' ''1'' ''4'' (100 / 3) 1, mkFlow ''f4'' ''4'' ''2'' 50 0,
         mkFlow ''f5'' ''1'' ''5'' (100 / 3) 2])"
  using rebalance_twice by (simp add: eval_simps)

subsection \<open>Conservation\<close>

text \<open>
  C1. The invariant says that every stage with outgoing flows has them sum to its
  incoming value within 0.01 after each operation. The editor breaks it: from the seed
  stage, three branches to new stages give three flows of 100/3; editing the first to
  100 per cent of the root's budget sets the other two to the floor 0.01, the rebalance
  pass then resets all three to 100/3 (the sum 100.02 is off by more than 0.01), the edit
  is applied again, and the last redistribution is skipped because nothing remains. The
  flows end at 100, 100/3 and 100/3: the root sends out 500/3 against a budget of 100.
\<close>

theorem conservation_broken_by_manual_edit:
  "threeBranches =
     ([rootStage, mkStage ''2'' 30, mkStage ''3'' 30, mkStage ''4'' 30],
      [createdFlow ''f1'' ''1'' ''1'' ''2'' (100 / 3) 0,
       createdFlow ''f2'' ''2'' ''1'' ''3'' (100 / 3) 1,
       createdFlow ''f3'' ''3'' ''1'' ''4'' (100 / 3) 2])
   \<and> handleFlowUpdate [rootStage, mkStage ''2'' 30, mkStage ''3'' 30, mkStage ''4'' 30]
        [createdFlow ''f1'' ''1'' ''1'' ''2'' (100 / 3) 0,
         createdFlow ''f2'' ''2'' ''1'' ''3'' (100 / 3) 1,
         createdFlow ''f3'' ''3'' ''1'' ''4'' (100 / 3) 2]
        (Some (createdFlow ''f1'' ''1'' ''1'' ''2'' 100 0))
      = Inr [createdFlow ''f1'' ''1'' ''1'' ''2'' 100 0,
             createdFlow ''f2'' ''2'' ''1'' ''3'' (100 / 3) 1,
             createdFlow ''f3'' ''3'' ''1'' ''4'' (100 / 3) 2]
   \<and> outgoingSum ''1'' [createdFlow ''f1'' ''1'' ''1'' ''2'' 100 0,
             createdFlow ''f2'' ''2'' ''1'' ''3'' (100 / 3) 1,
             createdFlow ''f3'' ''3'' ''1'' ''4'' (100 / 3) 2] = 500 / 3
   \<and> getIncomingFlowValue ''1'' [createdFlow ''f1'' ''1'' ''1'' ''2'' 100 0,
             createdFlow ''f2'' ''2'' ''1'' ''3'' (100 / 3) 1,
             createdFlow ''f3'' ''3'' ''1'' ''4'' (100 / 3) 2] = 100
   \<and> 0 < outgoingSum ''1'' [createdFlow ''f1'' ''1'' ''1'' ''2'' 100 0,
             createdFlow ''f2'' ''2'' ''1'' ''3'' (100 / 3) 1,
             createdFlow ''f3'' ''3'' ''1'' ''4'' (100 / 3) 2]
   \<and> \<bar>outgoingSum ''1'' [createdFlow ''f1'' ''1'' ''1'' ''2'' 100 0,
             createdFlow ''f2'' ''2'' ''1'' ''3'' (100 / 3) 1,
             createdFlow ''f3'' ''3'' ''1'' ''4'' (100 / 3) 2]
        - getIncomingFlowValue ''1'' [createdFlow ''f1'' ''1'' ''1'' ''2'' 100 0,
             createdFlow ''f2'' ''2'' ''1'' ''3'' (100 / 3) 1,
             createdFlow ''f3'' ''3'' ''1'' ''4'' (100 / 3) 2]\<bar> > 1 / 100"
  using threeBranches_eq edit_to_full
  by (simp add: eval_simps)

subsection \<open>Manual edit with siblings of value zero\<close>

text \<open>
  C4. The claim is that a manual edit never divides by a sibling sum of zero. The first
  redistribution of \<^verbatim>\<open>handleFlowUpdate\<close> does: with two branches of 50 from the root,
  editing the first to 0 per cent gives the flows 0 and 100; editing the second to 50 per
  cent then leaves 50 to distribute over siblings that sum to 0, and the quotient
  \<^verbatim>\<open>remainingValue / otherFlowsSum\<close> is taken without a test (the second redistribution of
  the same function tests \<^verbatim>\<open>finalOtherFlowsSum > 0\<close>). The floor 0.01 is not used there:
  it is the branch for \<^verbatim>\<open>remainingValue <= 0\<close>.
\<close>

theorem manual_edit_divides_by_zero:
  "handleFlowUpdate [rootStage, mkStage ''2'' 30, mkStage ''3'' 30]
      [createdFlow ''f1'' ''1'' ''1'' ''2'' 50 0, createdFlow ''f2'' ''2'' ''1'' ''3'' 50 1]
      (Some (createdFlow ''f1'' ''1'' ''1'' ''2'' 0 0))
     = Inr [createdFlow ''f1'' ''1'' ''1'' ''2'' 0 0, createdFlow ''f2'' ''2'' ''1'' ''3'' 100 1]
   \<and> handleFlowUpdate [rootStage, mkStage ''2'' 30, mkStage ''3'' 30]
      [createdFlow ''f1'' ''1'' ''1'' ''2'' 0 0, createdFlow ''f2'' ''2'' ''1'' ''3'' 100 1]
      (Some (createdFlow ''f2'' ''2'' ''1'' ''3'' 50 1))
     = Inl DivisionByZero"
  using edit_to_zero edit_divides_by_zero by simp

end
